theory Spec2Isabelle
  imports Complex_Main "HOL-Library.Sublist"
begin

section \<open>Data model\<close>

text \<open>
  The retrieval tool of \<^verbatim>\<open>src/mastra/tools/enhanced-vector-rag-tool.ts\<close> works on
  untyped JavaScript objects. The embedding fixes the shapes the code reads and writes.

  \<^item> A string is a \<open>string\<close>; a \<open>char\<close> stands for one UTF-16 code unit below 256
    (code units above the Latin-1 range are outside the model).
  \<^item> A number is a \<open>rat\<close>: comparisons are exact, sums and products are the exact ones
    (IEEE rounding is not modelled). A double \<open>s\<close> satisfies \<^verbatim>\<open>s > 0.7\<close> exactly when
    it is above \<open>7/10\<close>, because no double lies between the literal \<^verbatim>\<open>0.7\<close> and \<open>7/10\<close>.
  \<^item> A field that may be missing is an \<open>option\<close>. For \<open>score\<close>, \<open>None\<close> stands for
    \<^verbatim>\<open>undefined\<close> and for \<^verbatim>\<open>NaN\<close> alike: every operation the code applies to a score
    (logical or, comparison, product, sum, difference) treats the two the same way.
\<close>

record metadata =
  md_text :: "string option"
  md_entities :: "string list option"
  md_entitySearch :: "bool option"
  md_entity :: "string option"
  md_entityScore :: "nat option"
  md_boostedScore :: "rat option"

record candidate =
  cand_id :: string
  score :: "rat option"
  metadata :: "metadata option"

text \<open>\<^verbatim>\<open>result.score || 0\<close>\<close>

definition score_or_zero :: "candidate \<Rightarrow> rat" where
  "score_or_zero r = (case score r of None \<Rightarrow> 0 | Some s \<Rightarrow> s)"

section \<open>Strings\<close>

text \<open>
  \<^verbatim>\<open>String.prototype.toLowerCase\<close> on code units below 256: the letters A to Z and the
  Latin-1 capitals (U+00C0 to U+00DE without the multiplication sign U+00D7) move up by 32.
\<close>

definition toLowerCase_unit :: "char \<Rightarrow> char" where
  "toLowerCase_unit c =
     (let n = (of_char c :: nat)
      in if (65 \<le> n \<and> n \<le> 90) \<or> (192 \<le> n \<and> n \<le> 222 \<and> n \<noteq> 215)
         then char_of (n + 32) else c)"

definition toLowerCase :: "string \<Rightarrow> string" where
  "toLowerCase s = map toLowerCase_unit s"

text \<open>
  The class \<^verbatim>\<open>\s\<close> below 256: tab, line feed, vertical tab, form feed, carriage return,
  space and the no-break space.
\<close>

definition isWhiteSpace :: "char \<Rightarrow> bool" where
  "isWhiteSpace c = ((of_char c :: nat) \<in> {9, 10, 11, 12, 13, 32, 160})"

text \<open>
  \<^verbatim>\<open>s.split(/\s+/)\<close>: the pieces between maximal runs of white space; a run at either
  end leaves an empty piece there, and the empty string gives one empty piece.
\<close>

function splitWs :: "string \<Rightarrow> string list" where
  "splitWs [] = [[]]"
| "splitWs (c # cs) =
     (if isWhiteSpace c then [] # splitWs (dropWhile isWhiteSpace cs)
      else (case splitWs cs of [] \<Rightarrow> [[c]] | t # ts \<Rightarrow> (c # t) # ts))"
  by pat_completeness auto
termination
  by (relation "measure length") (auto simp: length_dropWhile_le le_imp_less_Suc)

text \<open>\<^verbatim>\<open>/^[a-zA-Z]+$/.test(word)\<close>\<close>

definition isAsciiLetter :: "char \<Rightarrow> bool" where
  "isAsciiLetter c =
     (let n = (of_char c :: nat) in (97 \<le> n \<and> n \<le> 122) \<or> (65 \<le> n \<and> n \<le> 90))"

definition onlyAsciiLetters :: "string \<Rightarrow> bool" where
  "onlyAsciiLetters word = (word \<noteq> [] \<and> list_all isAsciiLetter word)"

text \<open>\<^verbatim>\<open>text.includes(s)\<close>: \<open>s\<close> occurs in \<open>text\<close> as a contiguous piece.\<close>

fun includes_str :: "string \<Rightarrow> string \<Rightarrow> bool" where
  "includes_str [] s = (s = [])"
| "includes_str (c # cs) s = (prefix s (c # cs) \<or> includes_str cs s)"

section \<open>Collaborators\<close>

text \<open>
  The embedding provider, the vector store, the tool registry of the MCP client, the
  regular expression engine of the runtime, the clock and the random source are not code
  of this repository. They are the fields of an environment. A call that may throw returns
  \<open>error + 'a\<close>; \<^verbatim>\<open>error instanceof Error ? error.message : String(error)\<close> is the string
  that \<open>Error\<close> carries.

  The vector store is stateful. Its state is the history of the calls it has received, and
  its answers are functions of that history: a query appends a \<open>QueryCall\<close>, an upsert an
  \<open>UpsertDocuments\<close> or \<open>UpsertVectors\<close> (the two tools pass different argument shapes),
  also when the call throws.
\<close>

datatype error = Error string

type_synonym embedding = "rat list"

record web_result =
  wr_title :: "string option"
  wr_name :: "string option"
  wr_url :: "string option"
  wr_link :: "string option"
  wr_snippet :: "string option"
  wr_content :: "string option"
  wr_description :: "string option"

record web_document =
  doc_id :: string
  doc_content :: string
  doc_title :: string
  doc_url :: string
  doc_source :: string
  doc_originalQuery :: string
  doc_timestamp :: string
  doc_userRequested :: "bool option"

datatype vcall =
    QueryCall "embedding option" rat
  | UpsertDocuments "(web_document \<times> embedding option) list"
  | UpsertVectors "embedding list" "web_document list"

fun is_upsert :: "vcall \<Rightarrow> bool" where
  "is_upsert (QueryCall v k) = False"
| "is_upsert (UpsertDocuments ds) = True"
| "is_upsert (UpsertVectors vs ms) = True"

record tool =
  tool_id :: "string option"
  tool_execute :: "string \<Rightarrow> nat \<Rightarrow> error + web_result list option"

record env =
  getVector :: bool
  embedMany :: "string list \<Rightarrow> error + embedding list"
  vs_query :: "vcall list \<Rightarrow> embedding option \<Rightarrow> rat \<Rightarrow> error + candidate list option"
  vs_upsert :: "vcall list \<Rightarrow> vcall \<Rightarrow> error + unit"
  mcp_getTools :: "error + tool list"
  regExp_count :: "string \<Rightarrow> string \<Rightarrow> error + nat"
  dateNow :: "nat \<Rightarrow> string"
  mathRandom :: "nat \<Rightarrow> string"
  toISOString :: "nat \<Rightarrow> string"

text \<open>\<^verbatim>\<open>xs[i]\<close>, \<^verbatim>\<open>undefined\<close> out of range.\<close>

definition nth_opt :: "'a list \<Rightarrow> nat \<Rightarrow> 'a option" where
  "nth_opt xs i = (if i < length xs then Some (xs ! i) else None)"

text \<open>\<^verbatim>\<open>a || b\<close> on strings: a missing or empty \<open>a\<close> gives \<open>b\<close>.\<close>

definition or_else :: "string option \<Rightarrow> string \<Rightarrow> string" where
  "or_else a b = (case a of None \<Rightarrow> b | Some s \<Rightarrow> if s = [] then b else s)"

text \<open>Decimal digits of an index or a count in a template string.\<close>

function show_nat :: "nat \<Rightarrow> string" where
  "show_nat n = (if n < 10 then [char_of (48 + n)] else show_nat (n div 10) @ [char_of (48 + n mod 10)])"
  by pat_completeness auto
termination
  by (relation "measure id") auto

definition empty_metadata :: metadata where
  "empty_metadata = \<lparr>md_text = None, md_entities = None, md_entitySearch = None,
     md_entity = None, md_entityScore = None, md_boostedScore = None\<rparr>"

text \<open>\<^verbatim>\<open>{...result.metadata}\<close>: the fields of the metadata, none when it is missing.\<close>

definition spread_metadata :: "candidate \<Rightarrow> metadata" where
  "spread_metadata result = (case metadata result of None \<Rightarrow> empty_metadata | Some md \<Rightarrow> md)"

section \<open>Entity extraction\<close>

text \<open>
  Both extractors start from the same expression:
  \<^verbatim>\<open>text.toLowerCase().split(/\s+/).filter(word =>
     word.length > 3 && /^[a-zA-Z]+$/.test(word))\<close>
\<close>

definition potentialEntities :: "string \<Rightarrow> string list" where
  "potentialEntities txt =
     filter (\<lambda>word. length word > 3 \<and> onlyAsciiLetters word) (splitWs (toLowerCase txt))"

text \<open>\<^verbatim>\<open>Set.prototype.add\<close> on a set kept in insertion order.\<close>

definition set_add :: "string list \<Rightarrow> string \<Rightarrow> string list" where
  "set_add entities entity = (if entity \<in> set entities then entities else entities @ [entity])"

text \<open>\<^verbatim>\<open>result.metadata?.entities\<close>, and nothing when the field is missing.\<close>

definition declaredEntities :: "candidate \<Rightarrow> string list" where
  "declaredEntities result =
     (case metadata result of
        None \<Rightarrow> []
      | Some md \<Rightarrow> (case md_entities md of None \<Rightarrow> [] | Some es \<Rightarrow> es))"

text \<open>
  \<^verbatim>\<open>extractEntities(query, results)\<close> of the retrieval tool: the words of the query, then
  the entities declared in the metadata of the results, through a \<open>Set\<close>.
\<close>

definition extractEntities :: "string \<Rightarrow> candidate list \<Rightarrow> string list" where
  "extractEntities query results =
     fold (\<lambda>result entities. fold (\<lambda>entity es. set_add es entity) (declaredEntities result) entities)
       results
       (fold (\<lambda>entity es. set_add es entity) (potentialEntities query) [])"

text \<open>The list \<open>commonWords\<close> of \<^verbatim>\<open>performEntitySearch\<close>.\<close>

definition commonWords :: "string list" where
  "commonWords = [''the'', ''and'', ''or'', ''but'', ''in'', ''on'', ''at'', ''to'', ''for'',
     ''of'', ''with'', ''by'']"

text \<open>The list \<open>commonWords\<close> of \<^verbatim>\<open>extractSimpleEntities\<close> (file upload tool).\<close>

definition commonWords_upload :: "string list" where
  "commonWords_upload = [''the'', ''and'', ''with'', ''that'', ''this'', ''have'', ''from'',
     ''they'', ''will'', ''would'', ''there'', ''their'', ''what'', ''said'', ''each'', ''which'',
     ''she'', ''do'', ''how'', ''her'', ''if'', ''will'', ''up'', ''one'', ''about'', ''many'',
     ''then'', ''them'', ''these'', ''so'', ''some'', ''her'', ''would'', ''make'', ''like'',
     ''into'', ''him'', ''time'', ''two'', ''more'', ''go'', ''no'', ''way'', ''could'', ''my'',
     ''than'', ''first'', ''been'', ''call'', ''who'', ''its'', ''now'', ''find'', ''long'',
     ''down'', ''day'', ''did'', ''get'', ''come'', ''made'', ''may'', ''part'']"

text \<open>
  \<^verbatim>\<open>extractSimpleEntities(text)\<close> of the file upload tool:
  \<^verbatim>\<open>potentialEntities.forEach(word => {
    if (!commonWords.includes(word) && !entities.includes(word)) entities.push(word);
  });
  return entities.slice(0, 10);\<close>
\<close>

definition extractSimpleEntities :: "string \<Rightarrow> string list" where
  "extractSimpleEntities txt =
     take 10
       (fold (\<lambda>word entities.
                if word \<notin> set commonWords_upload \<and> word \<notin> set entities
                then entities @ [word] else entities)
          (potentialEntities txt) [])"

section \<open>Sufficiency gate\<close>

text \<open>
  \<^verbatim>\<open>initialResults && initialResults.length > 0 &&
     initialResults.some((result) => (result.score || 0) > 0.7)\<close>;
  the store may answer \<^verbatim>\<open>null\<close>, which is \<open>None\<close>.
\<close>

definition hasSufficientLocalResults :: "candidate list option \<Rightarrow> bool" where
  "hasSufficientLocalResults initialResults =
     (case initialResults of
        None \<Rightarrow> False
      | Some rs \<Rightarrow> length rs > 0 \<and> list_ex (\<lambda>result. score_or_zero result > 7 / 10) rs)"

section \<open>Entity expansion search\<close>

text \<open>
  The test of \<^verbatim>\<open>performEntitySearch\<close> on a hit:
  \<^verbatim>\<open>!initialResults.find((initial) => initial.id === result.id) && result.score > 0.7\<close>
\<close>

definition keepEntityResult :: "candidate list \<Rightarrow> candidate \<Rightarrow> bool" where
  "keepEntityResult initialResults result =
     (find (\<lambda>initial. cand_id initial = cand_id result) initialResults = None
      \<and> (case score result of None \<Rightarrow> False | Some s \<Rightarrow> s > 7 / 10))"

text \<open>
  The object pushed:
  \<^verbatim>\<open>{ ...result, score: result.score * 0.7,
     metadata: { ...result.metadata, entitySearch: true, entity: entity } }\<close>
\<close>

definition tagEntityResult :: "string \<Rightarrow> candidate \<Rightarrow> candidate" where
  "tagEntityResult entity result =
     result\<lparr>score := map_option (\<lambda>s. s * (7 / 10)) (score result),
            metadata := Some ((spread_metadata result)
                          \<lparr>md_entitySearch := Some True, md_entity := Some entity\<rparr>)\<rparr>"

text \<open>
  The loop over \<open>topEntities\<close> inside the \<^verbatim>\<open>try\<close>. An exception of the embedding call or
  of the query, and the \<open>TypeError\<close> of \<^verbatim>\<open>entityResults.forEach\<close> on \<^verbatim>\<open>null\<close>, leave the
  loop for the \<^verbatim>\<open>catch\<close>, which logs; \<open>relatedResults\<close> as it stands is returned.
\<close>

fun performEntitySearch_loop ::
  "env \<Rightarrow> candidate list \<Rightarrow> rat \<Rightarrow> vcall list \<Rightarrow> candidate list \<Rightarrow> string list
     \<Rightarrow> candidate list \<times> vcall list" where
  "performEntitySearch_loop env initialResults depth h relatedResults [] = (relatedResults, h)"
| "performEntitySearch_loop env initialResults depth h relatedResults (entity # rest) =
     (if toLowerCase entity \<in> set commonWords
      then performEntitySearch_loop env initialResults depth h relatedResults rest
      else
        (case embedMany env [entity] of
           Inl e \<Rightarrow> (relatedResults, h)
         | Inr embeddings \<Rightarrow>
             (let queryVector = nth_opt embeddings 0;
                  topK = min 5 (depth * 2);
                  h' = h @ [QueryCall queryVector topK]
              in case vs_query env h queryVector topK of
                   Inl e \<Rightarrow> (relatedResults, h')
                 | Inr None \<Rightarrow> (relatedResults, h')
                 | Inr (Some entityResults) \<Rightarrow>
                     performEntitySearch_loop env initialResults depth h'
                       (relatedResults
                          @ map (tagEntityResult entity)
                              (filter (keepEntityResult initialResults) entityResults))
                       rest)))"

definition performEntitySearch ::
  "env \<Rightarrow> string list \<Rightarrow> candidate list \<Rightarrow> rat \<Rightarrow> vcall list
     \<Rightarrow> candidate list \<times> vcall list" where
  "performEntitySearch env entities initialResults depth h =
     performEntitySearch_loop env initialResults depth h [] (take 3 entities)"

section \<open>Regular expressions of the runtime\<close>

text \<open>
  \<^verbatim>\<open>new RegExp(`\\b${entity}\\b`, 'gi')\<close>: the pattern source is the entity between two
  \<^verbatim>\<open>\b\<close>, with nothing escaped.
\<close>

definition wordPattern :: "string \<Rightarrow> string" where
  "wordPattern entity = [CHR 0x5C, CHR ''b''] @ entity @ [CHR 0x5C, CHR ''b'']"

text \<open>
  A model of the engine for the flags \<open>gi\<close>, on the patterns that are sequences of
  \<^verbatim>\<open>\b\<close>, the dot and characters that stand for themselves. Any other use of a syntax
  character (a quantifier, a group, a class, an alternative, another escape) is outside
  this fragment and reported as an error, although the engine accepts some of them; the
  retrieval tool takes the engine from the environment, so that what is proved of the tool
  for every environment does not depend on this fragment.
\<close>

datatype pattern_item = WordBoundary | AnyChar | Lit char

definition syntaxCharacters :: string where
  "syntaxCharacters = [CHR ''^'', CHR ''$'', CHR 0x5C, CHR ''.'', CHR ''*'', CHR ''+'', CHR ''?'',
     CHR ''('', CHR '')'', CHR ''['', CHR '']'', CHR ''{'', CHR ''}'', CHR ''|'']"

fun parsePattern :: "string \<Rightarrow> pattern_item list option" where
  "parsePattern [] = Some []"
| "parsePattern [c] =
     (if c = CHR ''.'' then Some [AnyChar]
      else if c \<in> set syntaxCharacters then None
      else Some [Lit c])"
| "parsePattern (c # d # cs) =
     (if c = CHR 0x5C then
        (if d = CHR ''b'' then map_option ((#) WordBoundary) (parsePattern cs) else None)
      else if c = CHR ''.'' then map_option ((#) AnyChar) (parsePattern (d # cs))
      else if c \<in> set syntaxCharacters then None
      else map_option ((#) (Lit c)) (parsePattern (d # cs)))"

text \<open>The class \<^verbatim>\<open>\w\<close>: letters, digits and the underscore.\<close>

definition isWordChar :: "char \<Rightarrow> bool" where
  "isWordChar c =
     (let n = (of_char c :: nat)
      in (97 \<le> n \<and> n \<le> 122) \<or> (65 \<le> n \<and> n \<le> 90) \<or> (48 \<le> n \<and> n \<le> 57) \<or> n = 95)"

definition isWordChar_opt :: "char option \<Rightarrow> bool" where
  "isWordChar_opt c = (case c of None \<Rightarrow> False | Some x \<Rightarrow> isWordChar x)"

definition isLineTerminator :: "char \<Rightarrow> bool" where
  "isLineTerminator c = (c = CHR 0x0A \<or> c = CHR 0x0D)"

text \<open>
  A match of the items at one position: \<open>prev\<close> is the character before the position,
  \<open>rest\<close> the text from it on; the result is the number of characters matched. Under the
  flag \<open>i\<close> two characters below 256 are equal when their lower-case forms are.
\<close>

fun matchItems :: "pattern_item list \<Rightarrow> char option \<Rightarrow> string \<Rightarrow> nat option" where
  "matchItems [] prev rest = Some 0"
| "matchItems (WordBoundary # items) prev rest =
     (if isWordChar_opt prev \<noteq> isWordChar_opt (case rest of [] \<Rightarrow> None | x # xs \<Rightarrow> Some x)
      then matchItems items prev rest else None)"
| "matchItems (AnyChar # items) prev [] = None"
| "matchItems (AnyChar # items) prev (x # xs) =
     (if isLineTerminator x then None else map_option Suc (matchItems items (Some x) xs))"
| "matchItems (Lit c # items) prev [] = None"
| "matchItems (Lit c # items) prev (x # xs) =
     (if toLowerCase_unit c = toLowerCase_unit x
      then map_option Suc (matchItems items (Some x) xs) else None)"

text \<open>
  \<^verbatim>\<open>text.match(regex)\<close> with the flag \<open>g\<close>: the matches are searched from left to right,
  each search starting where the last match ended, one character further after an empty
  match. \<open>skip\<close> counts the positions still inside the last match.
\<close>

fun countMatches :: "pattern_item list \<Rightarrow> nat \<Rightarrow> char option \<Rightarrow> string \<Rightarrow> nat" where
  "countMatches items skip prev [] =
     (if skip = 0 \<and> matchItems items prev [] \<noteq> None then 1 else 0)"
| "countMatches items skip prev (x # xs) =
     (if skip > 0 then countMatches items (skip - 1) (Some x) xs
      else (case matchItems items prev (x # xs) of
              None \<Rightarrow> countMatches items 0 (Some x) xs
            | Some n \<Rightarrow> 1 + countMatches items (n - 1) (Some x) xs))"

definition regExp_gi_count :: "string \<Rightarrow> string \<Rightarrow> error + nat" where
  "regExp_gi_count source txt =
     (case parsePattern source of
        None \<Rightarrow> Inl (Error ''pattern outside the modelled fragment'')
      | Some items \<Rightarrow> Inr (countMatches items 0 None txt))"

section \<open>Reranking by entity overlap\<close>

text \<open>
  \<^verbatim>\<open>entities.forEach(entity => {
    const regex = new RegExp(`\\b${entity}\\b`, 'gi');
    const matches = text.match(regex);
    if (matches) entityScore += matches.length;
  });\<close>
\<close>

fun countEntities ::
  "(string \<Rightarrow> string \<Rightarrow> error + nat) \<Rightarrow> string \<Rightarrow> nat \<Rightarrow> string list \<Rightarrow> error + nat" where
  "countEntities rx txt entityScore [] = Inr entityScore"
| "countEntities rx txt entityScore (entity # rest) =
     (case rx (wordPattern entity) txt of
        Inl e \<Rightarrow> Inl e
      | Inr n \<Rightarrow> countEntities rx txt (entityScore + n) rest)"

text \<open>\<^verbatim>\<open>result.metadata?.text?.toLowerCase() || ""\<close>\<close>

definition lowerText :: "candidate \<Rightarrow> string" where
  "lowerText result =
     (case metadata result of
        None \<Rightarrow> []
      | Some md \<Rightarrow> (case md_text md of None \<Rightarrow> [] | Some t \<Rightarrow> toLowerCase t))"

text \<open>
  The callback of \<^verbatim>\<open>results.map\<close>: \<^verbatim>\<open>boostedScore = result.score + (entityScore * 0.1)\<close>,
  stored as the score and, with \<open>entityScore\<close>, on the metadata.
\<close>

definition rerankOne ::
  "(string \<Rightarrow> string \<Rightarrow> error + nat) \<Rightarrow> string list \<Rightarrow> candidate \<Rightarrow> error + candidate" where
  "rerankOne rx entities result =
     (case countEntities rx (lowerText result) 0 entities of
        Inl e \<Rightarrow> Inl e
      | Inr entityScore \<Rightarrow>
          (let boostedScore = map_option (\<lambda>s. s + of_nat entityScore * (1 / 10)) (score result)
           in Inr (result\<lparr>score := boostedScore,
                     metadata := Some ((spread_metadata result)
                                   \<lparr>md_entityScore := Some entityScore,
                                    md_boostedScore := boostedScore\<rparr>)\<rparr>)))"

text \<open>\<^verbatim>\<open>Array.prototype.map\<close> with a callback that may throw.\<close>

fun map_throwing :: "('a \<Rightarrow> error + 'b) \<Rightarrow> 'a list \<Rightarrow> error + 'b list" where
  "map_throwing f [] = Inr []"
| "map_throwing f (x # xs) =
     (case f x of
        Inl e \<Rightarrow> Inl e
      | Inr y \<Rightarrow> (case map_throwing f xs of Inl e \<Rightarrow> Inl e | Inr ys \<Rightarrow> Inr (y # ys)))"

text \<open>
  \<^verbatim>\<open>.sort((a, b) => (b.score || 0) - (a.score || 0))\<close>: the sort of the runtime is stable,
  and the comparator orders by \<^verbatim>\<open>score || 0\<close>, larger first; that is the stable insertion
  sort on the negated key.
\<close>

definition rerankByEntityOverlap ::
  "(string \<Rightarrow> string \<Rightarrow> error + nat) \<Rightarrow> candidate list \<Rightarrow> string list
     \<Rightarrow> error + candidate list" where
  "rerankByEntityOverlap rx results entities =
     (if length entities = 0 then Inr results
      else (case map_throwing (rerankOne rx entities) results of
              Inl e \<Rightarrow> Inl e
            | Inr mapped \<Rightarrow> Inr (sort_key (\<lambda>c. - score_or_zero c) mapped)))"

section \<open>Deduplication\<close>

text \<open>
  \<^verbatim>\<open>const seenIds = new Set<string>();
  const uniqueResults = rerankedResults.filter((result) => {
    if (seenIds.has(result.id)) return false;
    seenIds.add(result.id);
    return true;
  });\<close>
  The filter callback mutates \<open>seenIds\<close>; the set is passed along.
\<close>

fun uniqueResults_from :: "string set \<Rightarrow> candidate list \<Rightarrow> candidate list" where
  "uniqueResults_from seenIds [] = []"
| "uniqueResults_from seenIds (result # rest) =
     (if cand_id result \<in> seenIds then uniqueResults_from seenIds rest
      else result # uniqueResults_from (insert (cand_id result) seenIds) rest)"

definition uniqueResults :: "candidate list \<Rightarrow> candidate list" where
  "uniqueResults rerankedResults = uniqueResults_from {} rerankedResults"

section \<open>Context assembly\<close>

definition maxContextLength :: nat where
  "maxContextLength = 6000"

definition maxResults :: nat where
  "maxResults = 15"

text \<open>
  \<^verbatim>\<open>entities.some(entity => textLower.includes(entity.toLowerCase()))\<close>
\<close>

definition hasRelevantContent :: "string list \<Rightarrow> string \<Rightarrow> bool" where
  "hasRelevantContent entities txt =
     list_ex (\<lambda>entity. includes_str (toLowerCase txt) (toLowerCase entity)) entities"

text \<open>
  The loop of step 6 over \<open>uniqueResults\<close>, with its three variables \<open>relevantTexts\<close>,
  \<open>currentLength\<close> and \<open>addedCount\<close>. A \<^verbatim>\<open>continue\<close> is the recursive call with the
  variables unchanged, a \<^verbatim>\<open>break\<close> returns \<open>relevantTexts\<close>. The empty string is falsy,
  so a candidate whose text is empty is passed over like one without text.
\<close>

fun relevantTexts_loop ::
  "string list \<Rightarrow> string \<Rightarrow> nat \<Rightarrow> nat \<Rightarrow> candidate list \<Rightarrow> string" where
  "relevantTexts_loop entities relevantTexts currentLength addedCount [] = relevantTexts"
| "relevantTexts_loop entities relevantTexts currentLength addedCount (result # rest) =
     (if addedCount \<ge> maxResults then relevantTexts
      else
        (case (case metadata result of None \<Rightarrow> None | Some md \<Rightarrow> md_text md) of
           None \<Rightarrow> relevantTexts_loop entities relevantTexts currentLength addedCount rest
         | Some txt \<Rightarrow>
             if txt = [] then
               relevantTexts_loop entities relevantTexts currentLength addedCount rest
             else if length txt < 50 then
               relevantTexts_loop entities relevantTexts currentLength addedCount rest
             else if \<not> hasRelevantContent entities txt then
               relevantTexts_loop entities relevantTexts currentLength addedCount rest
             else if currentLength + length txt > maxContextLength then
               (let remainingSpace = int maxContextLength - int currentLength
                in if remainingSpace > 200
                   then relevantTexts @ [CHR 0x0A, CHR 0x0A]
                          @ take (nat (remainingSpace - 200)) txt @ ''...''
                   else relevantTexts)
             else
               relevantTexts_loop entities
                 (relevantTexts
                    @ (if relevantTexts \<noteq> [] then [CHR 0x0A, CHR 0x0A] else []) @ txt)
                 (currentLength + length txt) (addedCount + 1) rest))"

definition assembleContext :: "candidate list \<Rightarrow> string list \<Rightarrow> string" where
  "assembleContext results entities = relevantTexts_loop entities [] 0 0 results"

section \<open>The retrieval tool\<close>

record rag_context =
  ctx_query :: string
  ctx_topK :: rat
  ctx_entityDepth :: rat
  ctx_useEntityEnhancement :: bool

record entity_path_item =
  ep_nodeId :: string
  ep_relationship :: string
  ep_score :: "rat option"
  ep_text :: string

text \<open>
  The metadata of a source: the fields spread from the candidate, then \<open>score\<close>, \<open>id\<close> and
  \<open>retrievalMethod\<close>; the source of the error response has \<open>error\<close> only.
\<close>

record source_metadata =
  sm_fields :: metadata
  sm_score :: "rat option"
  sm_id :: "string option"
  sm_retrievalMethod :: "string option"
  sm_error :: "string option"

record source =
  src_id :: string
  src_score :: rat
  src_document :: string
  src_metadata :: source_metadata

record RetrievalResult =
  rr_relevantContext :: string
  rr_sources :: "source list"
  rr_entityPath :: "entity_path_item list"
  rr_entities :: "string list"
  rr_webSearchUsed :: bool
  rr_webSearchResults :: "web_result list option"

text \<open>\<^verbatim>\<open>tool.id?.includes('search') || tool.id?.includes('web')\<close>\<close>

definition isWebSearchTool :: "tool \<Rightarrow> bool" where
  "isWebSearchTool t =
     (case tool_id t of
        None \<Rightarrow> False
      | Some i \<Rightarrow> includes_str i ''search'' \<or> includes_str i ''web'')"

text \<open>The document made of the web result at position \<open>i\<close>.\<close>

definition webDocument :: "env \<Rightarrow> string \<Rightarrow> nat \<Rightarrow> web_result \<Rightarrow> web_document" where
  "webDocument env query i result =
     \<lparr>doc_id = ''web_'' @ dateNow env i @ ''_'' @ mathRandom env i,
      doc_content =
        or_else (wr_content result) (or_else (wr_snippet result) (or_else (wr_description result) [])),
      doc_title = or_else (wr_title result) (or_else (wr_name result) ''Web Search Result''),
      doc_url = or_else (wr_url result) (or_else (wr_link result) ''#''),
      doc_source = ''web_search'',
      doc_originalQuery = query,
      doc_timestamp = toISOString env i,
      doc_userRequested = None\<rparr>"

text \<open>
  The block run when the local results are insufficient. Its own \<^verbatim>\<open>try\<close> catches every
  exception and goes on with the variables as they stand; \<open>webSearchUsed\<close> and
  \<open>webSearchResults\<close> are assigned before the documents are embedded and stored. The result
  is \<open>initialResults\<close>, \<open>webSearchUsed\<close> and \<open>webSearchResults\<close>, and the history.
\<close>

definition webSearchStage ::
  "env \<Rightarrow> rag_context \<Rightarrow> embedding option \<Rightarrow> candidate list option \<Rightarrow> vcall list
     \<Rightarrow> (candidate list option \<times> bool \<times> web_result list) \<times> vcall list" where
  "webSearchStage env ctx queryEmbedding initialResults h =
     (case mcp_getTools env of
        Inl e \<Rightarrow> ((initialResults, False, []), h)
      | Inr tools \<Rightarrow>
          (case find isWebSearchTool tools of
             None \<Rightarrow> ((initialResults, False, []), h)
           | Some exaWebSearchTool \<Rightarrow>
               (case tool_execute exaWebSearchTool (ctx_query ctx) 5 of
                  Inl e \<Rightarrow> ((initialResults, False, []), h)
                | Inr None \<Rightarrow> ((initialResults, False, []), h)
                | Inr (Some results) \<Rightarrow>
                    if length results > 0 then
                      (let documents =
                             map (\<lambda>(i, result). webDocument env (ctx_query ctx) i result)
                               (enumerate 0 results)
                       in case embedMany env (map doc_content documents) of
                            Inl e \<Rightarrow> ((initialResults, True, results), h)
                          | Inr embeddings \<Rightarrow>
                              (let call = UpsertDocuments
                                            (map (\<lambda>(i, doc). (doc, nth_opt embeddings i))
                                               (enumerate 0 documents));
                                   h1 = h @ [call]
                               in case vs_upsert env h call of
                                    Inl e \<Rightarrow> ((initialResults, True, results), h1)
                                  | Inr u \<Rightarrow>
                                      (let h2 = h1 @ [QueryCall queryEmbedding (ctx_topK ctx + 5)]
                                       in case vs_query env h1 queryEmbedding (ctx_topK ctx + 5) of
                                            Inl e \<Rightarrow> ((initialResults, True, results), h2)
                                          | Inr None \<Rightarrow> ((initialResults, True, results), h2)
                                          | Inr (Some updatedResults) \<Rightarrow>
                                              ((if length updatedResults > 0
                                                then Some updatedResults else initialResults,
                                                True, results), h2))))
                    else ((initialResults, False, []), h))))"

text \<open>\<^verbatim>\<open>webSearchResults: webSearchUsed ? webSearchResults : undefined\<close>\<close>

definition webSearchResults_field :: "bool \<Rightarrow> web_result list \<Rightarrow> web_result list option" where
  "webSearchResults_field webSearchUsed webSearchResults =
     (if webSearchUsed then Some webSearchResults else None)"

definition emptyResult :: "rag_context \<Rightarrow> bool \<Rightarrow> web_result list \<Rightarrow> RetrievalResult" where
  "emptyResult ctx webSearchUsed webSearchResults =
     \<lparr>rr_relevantContext =
        ''No relevant information found for the query: '' @ [CHR 0x22] @ ctx_query ctx
          @ [CHR 0x22] @ ''. The knowledge base may be empty or the query doesn''
          @ [CHR 0x27] @ ''t match any stored documents.'',
      rr_sources = [],
      rr_entityPath = [],
      rr_entities = [],
      rr_webSearchUsed = webSearchUsed,
      rr_webSearchResults = webSearchResults_field webSearchUsed webSearchResults\<rparr>"

text \<open>
  An entry of \<open>entityPath\<close>; \<^verbatim>\<open>result.metadata?.text?.substring(0, 100) + "..."\<close> turns a
  missing text into the string \<open>undefined...\<close>.
\<close>

definition entityPathItem :: "candidate \<Rightarrow> entity_path_item" where
  "entityPathItem result =
     \<lparr>ep_nodeId = cand_id result,
      ep_relationship = ''entity_search'',
      ep_score = score result,
      ep_text =
        (case (case metadata result of None \<Rightarrow> None | Some md \<Rightarrow> md_text md) of
           None \<Rightarrow> ''undefined''
         | Some t \<Rightarrow> take 100 t) @ ''...''\<rparr>"

text \<open>
  An entry of \<open>sources\<close>, from the element of \<open>rerankedResults\<close> at \<open>index\<close>;
  \<open>initialLength\<close> is \<^verbatim>\<open>initialResults.length\<close>.
\<close>

definition formatSource :: "nat \<Rightarrow> nat \<Rightarrow> candidate \<Rightarrow> source" where
  "formatSource initialLength index result =
     \<lparr>src_id = ''result-'' @ show_nat index,
      src_score = score_or_zero result,
      src_document =
        or_else (case metadata result of None \<Rightarrow> None | Some md \<Rightarrow> md_text md)
          ''No text available'',
      src_metadata =
        \<lparr>sm_fields = spread_metadata result,
         sm_score = score result,
         sm_id = Some (cand_id result),
         sm_retrievalMethod =
           Some (if index < initialLength then ''vector_similarity'' else ''entity_search''),
         sm_error = None\<rparr>\<rparr>"

definition formatSources :: "nat \<Rightarrow> candidate list \<Rightarrow> source list" where
  "formatSources initialLength rerankedResults =
     map (\<lambda>(index, result). formatSource initialLength index result)
       (enumerate 0 rerankedResults)"

text \<open>
  Steps 2 to 6 of \<open>execute\<close>, from the test for empty results to the normal return. Only
  the construction of a regular expression in the reranking can throw here.
\<close>

definition retrieveFrom ::
  "env \<Rightarrow> rag_context \<Rightarrow> candidate list option \<Rightarrow> bool \<Rightarrow> web_result list \<Rightarrow> vcall list
     \<Rightarrow> (error + RetrievalResult) \<times> vcall list" where
  "retrieveFrom env ctx initialResults webSearchUsed webSearchResults h =
     (case initialResults of
        None \<Rightarrow> (Inr (emptyResult ctx webSearchUsed webSearchResults), h)
      | Some initial \<Rightarrow>
          if length initial = 0 then (Inr (emptyResult ctx webSearchUsed webSearchResults), h)
          else
            (let entities = extractEntities (ctx_query ctx) initial;
                 (entityResults, h') =
                   (if ctx_useEntityEnhancement ctx \<and> length entities > 0
                    then performEntitySearch env entities initial (ctx_entityDepth ctx) h
                    else ([], h));
                 enhancedResults =
                   (if length entityResults > 0 then initial @ entityResults else initial);
                 entityPath = map entityPathItem entityResults
             in case rerankByEntityOverlap (regExp_count env) enhancedResults entities of
                  Inl e \<Rightarrow> (Inl e, h')
                | Inr rerankedResults \<Rightarrow>
                    (let relevantTexts = assembleContext (uniqueResults rerankedResults) entities
                     in (Inr \<lparr>rr_relevantContext =
                                (if relevantTexts \<noteq> [] then relevantTexts
                                 else ''No text content found for query: '' @ [CHR 0x22]
                                        @ ctx_query ctx @ [CHR 0x22]),
                              rr_sources = formatSources (length initial) rerankedResults,
                              rr_entityPath = entityPath,
                              rr_entities = entities,
                              rr_webSearchUsed = webSearchUsed,
                              rr_webSearchResults =
                                webSearchResults_field webSearchUsed webSearchResults\<rparr>,
                         h'))))"

text \<open>
  The body of the outer \<^verbatim>\<open>try\<close>: the check of the vector store, the embedding of the
  query, the initial query, the web search when the local results are insufficient, and
  the steps above. \<open>Inl\<close> is an exception that reaches the outer \<^verbatim>\<open>catch\<close>.
\<close>

definition execute_try ::
  "env \<Rightarrow> rag_context \<Rightarrow> vcall list \<Rightarrow> (error + RetrievalResult) \<times> vcall list" where
  "execute_try env ctx h =
     (if \<not> getVector env
      then (Inl (Error ''Vector store not found. Please ensure pgVector is configured.''), h)
      else
        (case embedMany env [ctx_query ctx] of
           Inl e \<Rightarrow> (Inl e, h)
         | Inr embeddings \<Rightarrow>
             (let queryEmbedding = nth_opt embeddings 0;
                  h1 = h @ [QueryCall queryEmbedding (ctx_topK ctx)]
              in case vs_query env h queryEmbedding (ctx_topK ctx) of
                   Inl e \<Rightarrow> (Inl e, h1)
                 | Inr firstResults \<Rightarrow>
                     (let ((initialResults, webSearchUsed, webSearchResults), h2) =
                            (if \<not> hasSufficientLocalResults firstResults
                             then webSearchStage env ctx queryEmbedding firstResults h1
                             else ((firstResults, False, []), h1))
                      in retrieveFrom env ctx initialResults webSearchUsed webSearchResults h2))))"

text \<open>The response of the outer \<^verbatim>\<open>catch\<close>.\<close>

definition errorResult :: "rag_context \<Rightarrow> error \<Rightarrow> RetrievalResult" where
  "errorResult ctx err =
     \<lparr>rr_relevantContext =
        ''Error retrieving information for query: '' @ [CHR 0x22] @ ctx_query ctx @ [CHR 0x22]
          @ ''. Please check if the vector store is properly configured and contains data.'',
      rr_sources =
        [\<lparr>src_id = ''error'',
          src_score = 0,
          src_document = ''Error occurred during retrieval'',
          src_metadata =
            \<lparr>sm_fields = empty_metadata, sm_score = None, sm_id = None,
             sm_retrievalMethod = None,
             sm_error = Some (case err of Error errorMessage \<Rightarrow> errorMessage)\<rparr>\<rparr>],
      rr_entityPath = [],
      rr_entities = [],
      rr_webSearchUsed = False,
      rr_webSearchResults = None\<rparr>"

text \<open>
  \<open>execute\<close> of \<open>enhancedVectorRagTool\<close>: the result and the history of the store. The
  destructuring of the context, the only statement outside the \<^verbatim>\<open>try\<close>, does not throw on
  a context of the shape of the input schema.
\<close>

definition execute :: "env \<Rightarrow> rag_context \<Rightarrow> vcall list \<Rightarrow> RetrievalResult \<times> vcall list" where
  "execute env ctx h =
     (case execute_try env ctx h of
        (Inl err, h') \<Rightarrow> (errorResult ctx err, h')
      | (Inr result, h') \<Rightarrow> (result, h'))"

section \<open>The tool that stores web results\<close>

record store_context =
  sc_searchResults :: "web_result list"
  sc_originalQuery :: string
  sc_userRequested :: bool

record store_output =
  so_message :: string
  so_storedCount :: nat
  so_documentIds :: "string list"

definition storedDocument :: "env \<Rightarrow> string \<Rightarrow> nat \<Rightarrow> web_result \<Rightarrow> web_document" where
  "storedDocument env originalQuery index result =
     \<lparr>doc_id = ''web_'' @ dateNow env index @ ''_'' @ show_nat index,
      doc_content = or_else (wr_content result) (or_else (wr_snippet result) []),
      doc_title = or_else (wr_title result) ''Web Search Result'',
      doc_url = or_else (wr_url result) ''#'',
      doc_source = ''web_search'',
      doc_originalQuery = originalQuery,
      doc_timestamp = toISOString env index,
      doc_userRequested = Some True\<rparr>"

text \<open>
  The body of the \<^verbatim>\<open>try\<close> of \<open>storeWebResultsTool.execute\<close>. The emoji that opens the
  messages of success and of failure is left out.
\<close>

definition storeWebResults_try ::
  "env \<Rightarrow> store_context \<Rightarrow> vcall list \<Rightarrow> (error + store_output) \<times> vcall list" where
  "storeWebResults_try env ctx h =
     (if \<not> sc_userRequested ctx then
        (Inr \<lparr>so_message = ''Web search results not stored - user did not request storage'',
              so_storedCount = 0,
              so_documentIds = []\<rparr>, h)
      else if \<not> getVector env then (Inl (Error ''Vector store not available''), h)
      else
        (let documents =
               map (\<lambda>(index, result). storedDocument env (sc_originalQuery ctx) index result)
                 (enumerate 0 (sc_searchResults ctx))
         in case embedMany env (map doc_content documents) of
              Inl e \<Rightarrow> (Inl e, h)
            | Inr embeddings \<Rightarrow>
                (let call = UpsertVectors embeddings documents
                 in case vs_upsert env h call of
                      Inl e \<Rightarrow> (Inl e, h @ [call])
                    | Inr u \<Rightarrow>
                        (Inr \<lparr>so_message =
                                 ''Successfully stored '' @ show_nat (length documents)
                                   @ '' web search results in knowledge base'',
                               so_storedCount = length documents,
                               so_documentIds = map doc_id documents\<rparr>,
                         h @ [call]))))"

definition storeWebResults ::
  "env \<Rightarrow> store_context \<Rightarrow> vcall list \<Rightarrow> store_output \<times> vcall list" where
  "storeWebResults env ctx h =
     (case storeWebResults_try env ctx h of
        (Inl (Error errorMessage), h') \<Rightarrow>
          (\<lparr>so_message = ''Failed to store web search results: '' @ errorMessage,
            so_storedCount = 0,
            so_documentIds = []\<rparr>, h')
      | (Inr out, h') \<Rightarrow> (out, h'))"

section \<open>Properties stated about the entity search\<close>

text \<open>
  \<open>r\<close> is the tagged copy of \<open>raw\<close>, a hit that the store returned to the query made for
  the entity \<open>e\<close> and that passed the test of the search.
\<close>

definition entityHit :: "env \<Rightarrow> candidate list \<Rightarrow> rat \<Rightarrow> string \<Rightarrow> candidate \<Rightarrow> candidate \<Rightarrow> bool" where
  "entityHit env initial depth e raw r =
     (\<exists>hq embs rs.
        embedMany env [e] = Inr embs
        \<and> vs_query env hq (nth_opt embs 0) (min 5 (depth * 2)) = Inr (Some rs)
        \<and> raw \<in> set rs \<and> keepEntityResult initial raw \<and> r = tagEntityResult e raw)"

section \<open>Properties stated about the reranking\<close>

text \<open>
  The count that the specification words: the positions of the text at which the entity
  occurs, letter case aside, as a whole word (no word character next to it on either side).
\<close>

definition occursAsWordAt :: "string \<Rightarrow> string \<Rightarrow> nat \<Rightarrow> bool" where
  "occursAsWordAt entity txt i =
     (i + length entity \<le> length txt
      \<and> toLowerCase (take (length entity) (drop i txt)) = toLowerCase entity
      \<and> (i = 0 \<or> \<not> isWordChar (txt ! (i - 1)))
      \<and> (i + length entity = length txt \<or> \<not> isWordChar (txt ! (i + length entity))))"

definition wholeWordOccurrences :: "string \<Rightarrow> string \<Rightarrow> nat" where
  "wholeWordOccurrences entity txt =
     length (filter (occursAsWordAt entity txt) [0..<Suc (length txt)])"

text \<open>The character before position \<open>i\<close> of a text, none at its start.\<close>

definition prevAt :: "string \<Rightarrow> nat \<Rightarrow> char option" where
  "prevAt txt i = (if i = 0 then None else Some (txt ! (i - 1)))"

text \<open>
  What the specification asks of the reranking: the occurrences of all entities in the
  lower-cased text of a candidate, and the candidate with its score raised by a tenth of
  that count, the count and the raised score stored on its metadata.
\<close>

definition entityOccurrences :: "string list \<Rightarrow> candidate \<Rightarrow> nat" where
  "entityOccurrences entities result =
     sum_list (map (\<lambda>entity. wholeWordOccurrences entity (lowerText result)) entities)"

definition boosted :: "string list \<Rightarrow> candidate \<Rightarrow> candidate" where
  "boosted entities result =
     result\<lparr>score := map_option (\<lambda>s. s + of_nat (entityOccurrences entities result) * (1 / 10))
                       (score result),
            metadata := Some ((spread_metadata result)
               \<lparr>md_entityScore := Some (entityOccurrences entities result),
                md_boostedScore :=
                  map_option (\<lambda>s. s + of_nat (entityOccurrences entities result) * (1 / 10))
                    (score result)\<rparr>)\<rparr>"

section \<open>Properties stated about the context assembly\<close>

text \<open>
  The pieces that the loop of step 6 appends to \<open>relevantTexts\<close>, one for each candidate
  whose text it takes, whole or truncated; \<open>started\<close> tells whether \<open>relevantTexts\<close> is
  non-empty.
\<close>

definition textOf :: "candidate \<Rightarrow> string option" where
  "textOf result = (case metadata result of None \<Rightarrow> None | Some md \<Rightarrow> md_text md)"

fun relevantPieces ::
  "string list \<Rightarrow> bool \<Rightarrow> nat \<Rightarrow> nat \<Rightarrow> candidate list \<Rightarrow> string list" where
  "relevantPieces entities started currentLength addedCount [] = []"
| "relevantPieces entities started currentLength addedCount (result # rest) =
     (if addedCount \<ge> maxResults then []
      else
        (case textOf result of
           None \<Rightarrow> relevantPieces entities started currentLength addedCount rest
         | Some txt \<Rightarrow>
             if txt = [] \<or> length txt < 50 \<or> \<not> hasRelevantContent entities txt then
               relevantPieces entities started currentLength addedCount rest
             else if currentLength + length txt > maxContextLength then
               (if int maxContextLength - int currentLength > 200
                then [[CHR 0x0A, CHR 0x0A]
                        @ take (nat (int maxContextLength - int currentLength - 200)) txt @ ''...'']
                else [])
             else
               ((if started then [CHR 0x0A, CHR 0x0A] else []) @ txt)
                 # relevantPieces entities True (currentLength + length txt) (addedCount + 1) rest))"

section \<open>Sample inputs\<close>

text \<open>
  A store that answers its first query with one candidate and every later query with
  another one, an embedding provider that never fails, and no web search tool.
\<close>

definition sample_initial :: candidate where
  "sample_initial = \<lparr>cand_id = ''c0'', score = Some (9 / 10),
     metadata = Some (empty_metadata\<lparr>md_text := Some ''alpha is the first letter''\<rparr>)\<rparr>"

definition sample_hit :: candidate where
  "sample_hit = \<lparr>cand_id = ''x'', score = Some (8 / 10),
     metadata = Some (empty_metadata\<lparr>md_text := Some ''beta follows alpha''\<rparr>)\<rparr>"

definition sample_env :: env where
  "sample_env =
     \<lparr>getVector = True,
      embedMany = (\<lambda>values. Inr (map (\<lambda>v. [of_nat (length v)]) values)),
      vs_query = (\<lambda>h v k. Inr (Some (if h = [] then [sample_initial] else [sample_hit]))),
      vs_upsert = (\<lambda>h c. Inr ()),
      mcp_getTools = Inr [],
      regExp_count = regExp_gi_count,
      dateNow = (\<lambda>i. ''0''),
      mathRandom = (\<lambda>i. ''0''),
      toISOString = (\<lambda>i. [])\<rparr>"

definition sample_context :: rag_context where
  "sample_context = \<lparr>ctx_query = ''alpha beta'', ctx_topK = 10, ctx_entityDepth = 2,
     ctx_useEntityEnhancement = True\<rparr>"

text \<open>
  A store that is empty at first and a registry with a web search tool that finds one
  result.
\<close>

definition sample_web_result :: web_result where
  "sample_web_result = \<lparr>wr_title = Some ''Alpha'', wr_name = None, wr_url = Some ''http://a'',
     wr_link = None, wr_snippet = Some ''alpha particles'', wr_content = None,
     wr_description = None\<rparr>"

definition sample_web_env :: env where
  "sample_web_env =
     \<lparr>getVector = True,
      embedMany = (\<lambda>values. Inr (map (\<lambda>v. [of_nat (length v)]) values)),
      vs_query = (\<lambda>h v k. Inr (Some (if h = [] then [] else [sample_hit]))),
      vs_upsert = (\<lambda>h c. Inr ()),
      mcp_getTools = Inr [\<lparr>tool_id = Some ''exa_web_search'',
                           tool_execute = (\<lambda>q n. Inr (Some [sample_web_result]))\<rparr>],
      regExp_count = regExp_gi_count,
      dateNow = (\<lambda>i. ''0''),
      mathRandom = (\<lambda>i. ''0''),
      toISOString = (\<lambda>i. [])\<rparr>"

definition sample_store_context :: "bool \<Rightarrow> store_context" where
  "sample_store_context userRequested =
     \<lparr>sc_searchResults = [sample_web_result], sc_originalQuery = ''alpha'',
      sc_userRequested = userRequested\<rparr>"

text \<open>A candidate of score 1 whose text is \<open>abc\<close>.\<close>

definition sample_abc :: candidate where
  "sample_abc = \<lparr>cand_id = ''c1'', score = Some 1,
     metadata = Some (empty_metadata\<lparr>md_text := Some ''abc''\<rparr>)\<rparr>"

text \<open>A candidate whose text is \<open>n\<close> letters \<open>a\<close>.\<close>

definition chunk_of_a :: "string \<Rightarrow> nat \<Rightarrow> candidate" where
  "chunk_of_a i n = \<lparr>cand_id = i, score = Some 1,
      metadata = Some \<lparr>md_text = Some (replicate n (CHR ''a'')), md_entities = None,
        md_entitySearch = None, md_entity = None, md_entityScore = None,
        md_boostedScore = None\<rparr>\<rparr>"

section \<open>Properties of the sufficiency gate\<close>

text \<open>
  Claim C2. The gate holds exactly for a non-empty list with a candidate whose score
  (0 when missing) is strictly above 0.7. It is false for the empty list, true for a single
  candidate of score 0.71, false for the scores 0.5 and 0.69.
\<close>

theorem sufficiency_gate_iff:
  "(hasSufficientLocalResults (Some rs) \<longleftrightarrow>
      rs \<noteq> [] \<and> (\<exists>r \<in> set rs. (case score r of None \<Rightarrow> 0 | Some s \<Rightarrow> s) > 7 / 10))
   \<and> \<not> hasSufficientLocalResults (Some [])
   \<and> hasSufficientLocalResults
        (Some [\<lparr>cand_id = i, score = Some (71 / 100), metadata = m\<rparr>])
   \<and> \<not> hasSufficientLocalResults
        (Some [\<lparr>cand_id = i, score = Some (5 / 10), metadata = m\<rparr>,
               \<lparr>cand_id = j, score = Some (69 / 100), metadata = n\<rparr>])"
  by (auto simp: hasSufficientLocalResults_def score_or_zero_def list_ex_iff)

theorem sufficiency_gate_iff_witness:
  "hasSufficientLocalResults
     (Some [\<lparr>cand_id = ''a'', score = None, metadata = None\<rparr>,
            \<lparr>cand_id = ''b'', score = Some (8 / 10), metadata = None\<rparr>])
   \<and> \<not> hasSufficientLocalResults
        (Some [\<lparr>cand_id = ''a'', score = None, metadata = None\<rparr>])"
  using sufficiency_gate_iff
    [of "[\<lparr>cand_id = ''a'', score = None, metadata = None\<rparr>,
          \<lparr>cand_id = ''b'', score = Some (8 / 10), metadata = None\<rparr>]"]
    sufficiency_gate_iff
    [of "[\<lparr>cand_id = ''a'', score = None, metadata = None\<rparr>]"]
  by simp

section \<open>Properties of deduplication\<close>

lemma uniqueResults_from_ids:
  "cand_id ` set (uniqueResults_from seen rs) = cand_id ` set rs - seen"
  by (induction rs arbitrary: seen) auto

lemma uniqueResults_from_distinct:
  "distinct (map cand_id (uniqueResults_from seen rs))"
proof (induction rs arbitrary: seen)
  case Nil
  show ?case by simp
next
  case (Cons r rs)
  have "cand_id r \<notin> cand_id ` set (uniqueResults_from (insert (cand_id r) seen) rs)"
    unfolding uniqueResults_from_ids by simp
  with Cons show ?case by simp
qed

lemma uniqueResults_from_subseq:
  "subseq (uniqueResults_from seen rs) rs"
  by (induction rs arbitrary: seen) auto

lemma uniqueResults_from_first:
  "r \<in> set (uniqueResults_from seen rs) \<Longrightarrow> find (\<lambda>c. cand_id c = cand_id r) rs = Some r"
proof (induction rs arbitrary: seen)
  case Nil
  then show ?case by simp
next
  case (Cons x xs)
  show ?case
  proof (cases "cand_id x \<in> seen")
    case True
    with Cons.prems have mem: "r \<in> set (uniqueResults_from seen xs)" by simp
    then have "cand_id r \<in> cand_id ` set (uniqueResults_from seen xs)" by blast
    then have "cand_id r \<notin> seen" unfolding uniqueResults_from_ids by simp
    with True have "cand_id x \<noteq> cand_id r" by auto
    with Cons.IH [OF mem] show ?thesis by simp
  next
    case False
    with Cons.prems
    consider "r = x" | "r \<in> set (uniqueResults_from (insert (cand_id x) seen) xs)"
      by auto
    then show ?thesis
    proof cases
      case 1
      then show ?thesis by simp
    next
      case 2
      then have "cand_id r \<in> cand_id ` set (uniqueResults_from (insert (cand_id x) seen) xs)"
        by blast
      then have "cand_id x \<noteq> cand_id r" unfolding uniqueResults_from_ids by auto
      with Cons.IH [OF 2] show ?thesis by simp
    qed
  qed
qed

text \<open>
  Claim C6. Deduplication returns a subsequence of its input (stable order) whose ids are
  pairwise distinct, in which every id of the input survives, and every element kept is
  the first element of the input that carries its id, unchanged. Two candidates with id
  \<open>a\<close> and scores 1 and 2 are reduced to the one with score 1.
\<close>

theorem uniqueResults_first_seen:
  "distinct (map cand_id (uniqueResults rs))
   \<and> subseq (uniqueResults rs) rs
   \<and> cand_id ` set (uniqueResults rs) = cand_id ` set rs
   \<and> (\<forall>r \<in> set (uniqueResults rs). find (\<lambda>c. cand_id c = cand_id r) rs = Some r)
   \<and> uniqueResults [\<lparr>cand_id = ''a'', score = Some 1, metadata = m\<rparr>,
                     \<lparr>cand_id = ''a'', score = Some 2, metadata = n\<rparr>]
       = [\<lparr>cand_id = ''a'', score = Some 1, metadata = m\<rparr>]"
proof -
  have "cand_id ` set (uniqueResults rs) = cand_id ` set rs"
    unfolding uniqueResults_def uniqueResults_from_ids by simp
  moreover have "\<forall>r \<in> set (uniqueResults rs). find (\<lambda>c. cand_id c = cand_id r) rs = Some r"
    unfolding uniqueResults_def by (blast intro: uniqueResults_from_first)
  ultimately show ?thesis
    by (simp add: uniqueResults_def uniqueResults_from_distinct uniqueResults_from_subseq)
qed

theorem uniqueResults_first_seen_witness:
  "uniqueResults [\<lparr>cand_id = ''a'', score = Some 1, metadata = None\<rparr>,
                  \<lparr>cand_id = ''b'', score = Some 3, metadata = None\<rparr>,
                  \<lparr>cand_id = ''a'', score = Some 2, metadata = None\<rparr>]
     = [\<lparr>cand_id = ''a'', score = Some 1, metadata = None\<rparr>,
        \<lparr>cand_id = ''b'', score = Some 3, metadata = None\<rparr>]
   \<and> find (\<lambda>c. cand_id c = ''a'')
        [\<lparr>cand_id = ''a'', score = Some 1, metadata = None\<rparr>,
         \<lparr>cand_id = ''b'', score = Some 3, metadata = None\<rparr>,
         \<lparr>cand_id = ''a'', score = Some (2::rat), metadata = None\<rparr>]
       = Some \<lparr>cand_id = ''a'', score = Some 1, metadata = None\<rparr>"
  using uniqueResults_first_seen
    [of "[\<lparr>cand_id = ''a'', score = Some 1, metadata = None\<rparr>,
          \<lparr>cand_id = ''b'', score = Some 3, metadata = None\<rparr>,
          \<lparr>cand_id = ''a'', score = Some 2, metadata = None\<rparr>]"]
  by (simp add: uniqueResults_def)

section \<open>Properties of entity extraction\<close>

lemma fold_set_add_set:
  "set (fold (\<lambda>entity es. set_add es entity) xs acc) = set acc \<union> set xs"
  by (induction xs arbitrary: acc) (auto simp: set_add_def)

lemma extractEntities_set:
  "set (extractEntities query results)
     = set (potentialEntities query) \<union> (\<Union>r \<in> set results. set (declaredEntities r))"
proof -
  have "set (fold (\<lambda>result entities.
                fold (\<lambda>entity es. set_add es entity) (declaredEntities result) entities) rs acc)
          = set acc \<union> (\<Union>r \<in> set rs. set (declaredEntities r))" for rs acc
    by (induction rs arbitrary: acc) (auto simp: fold_set_add_set)
  then show ?thesis
    by (simp add: extractEntities_def fold_set_add_set)
qed

lemma extractSimpleEntities_fold_set:
  "x \<in> set (fold (\<lambda>word entities.
                if word \<notin> set commonWords_upload \<and> word \<notin> set entities
                then entities @ [word] else entities) ws acc)
     \<Longrightarrow> x \<in> set acc \<or> (x \<in> set ws \<and> x \<notin> set commonWords_upload)"
proof (induction ws arbitrary: acc)
  case Nil
  then show ?case by simp
next
  case (Cons w ws)
  show ?case
  proof (cases "w \<notin> set commonWords_upload \<and> w \<notin> set acc")
    case True
    with Cons.prems have "x \<in> set (fold (\<lambda>word entities.
                if word \<notin> set commonWords_upload \<and> word \<notin> set entities
                then entities @ [word] else entities) ws (acc @ [w]))"
      by simp
    from Cons.IH [OF this] True show ?thesis by auto
  next
    case False
    with Cons.prems have "x \<in> set (fold (\<lambda>word entities.
                if word \<notin> set commonWords_upload \<and> word \<notin> set entities
                then entities @ [word] else entities) ws acc)"
      by auto
    from Cons.IH [OF this] show ?thesis by auto
  qed
qed

lemma potentialEntities_token:
  "e \<in> set (potentialEntities txt) \<Longrightarrow>
     e \<in> set (splitWs (toLowerCase txt)) \<and> length e > 3 \<and> list_all isAsciiLetter e"
  by (auto simp: potentialEntities_def onlyAsciiLetters_def)

text \<open>
  What holds of the two extractors. At query time every entity is a lower-cased
  white-space token of the query, longer than 3 and made of ASCII letters only, or an
  entity declared in the metadata of a result. At ingestion time every entity is such a
  token of the chunk and is not in the stop-word list of the upload tool.
\<close>

lemma extracted_entities_are_tokens:
  "(\<forall>e \<in> set (extractEntities query results).
       (e \<in> set (splitWs (toLowerCase query)) \<and> length e > 3 \<and> list_all isAsciiLetter e)
       \<or> (\<exists>r \<in> set results. \<exists>md es.
             metadata r = Some md \<and> md_entities md = Some es \<and> e \<in> set es))
   \<and> (\<forall>e \<in> set (extractSimpleEntities txt).
         e \<in> set (splitWs (toLowerCase txt)) \<and> length e > 3 \<and> list_all isAsciiLetter e
         \<and> e \<notin> set commonWords_upload)"
proof -
  have q: "(e \<in> set (splitWs (toLowerCase query)) \<and> length e > 3 \<and> list_all isAsciiLetter e)
       \<or> (\<exists>r \<in> set results. \<exists>md es.
             metadata r = Some md \<and> md_entities md = Some es \<and> e \<in> set es)"
    if "e \<in> set (extractEntities query results)" for e
  proof -
    from that consider "e \<in> set (potentialEntities query)"
      | r where "r \<in> set results" "e \<in> set (declaredEntities r)"
      unfolding extractEntities_set by blast
    then show ?thesis
    proof cases
      case 1
      then show ?thesis using potentialEntities_token by blast
    next
      case 2
      from 2(2) obtain md where m: "metadata r = Some md"
        by (cases "metadata r") (simp_all add: declaredEntities_def)
      with 2(2) obtain es where "md_entities md = Some es" "e \<in> set es"
        by (cases "md_entities md") (simp_all add: declaredEntities_def)
      with 2(1) m show ?thesis by blast
    qed
  qed
  have u: "e \<in> set (splitWs (toLowerCase txt)) \<and> length e > 3 \<and> list_all isAsciiLetter e
         \<and> e \<notin> set commonWords_upload"
    if "e \<in> set (extractSimpleEntities txt)" for e
  proof -
    from that have "e \<in> set (fold (\<lambda>word entities.
                if word \<notin> set commonWords_upload \<and> word \<notin> set entities
                then entities @ [word] else entities) (potentialEntities txt) [])"
      unfolding extractSimpleEntities_def by (rule in_set_takeD)
    from extractSimpleEntities_fold_set [OF this]
    have "e \<in> set (potentialEntities txt)" "e \<notin> set commonWords_upload"
      by auto
    then show ?thesis using potentialEntities_token by blast
  qed
  from q u show ?thesis by blast
qed

lemma extractEntities_with: "extractEntities ''with'' [] = [''with'']"
  by code_simp

lemma extractSimpleEntities_sample:
  "extractSimpleEntities ''Riverdale population with'' = [''riverdale'', ''population'']"
  by code_simp

lemma extracted_entities_are_tokens_sample:
  "''with'' \<in> set (splitWs (toLowerCase ''with''))
   \<and> ''riverdale'' \<in> set (splitWs (toLowerCase ''Riverdale population with''))
   \<and> ''riverdale'' \<notin> set commonWords_upload"
  using extracted_entities_are_tokens [of "''with''" "[]" "''Riverdale population with''"]
  by (simp add: extractEntities_with extractSimpleEntities_sample)

lemma extractSimpleEntities_with: "extractSimpleEntities ''with'' = []"
  by code_simp

text \<open>
  Claim C8, at the query \<open>with\<close>. An entity derived from a text is a lower-cased
  white-space token, longer than 3, of ASCII letters only, that is not a stop word of its
  call site. The query-time extractor applies no stop-word list: it returns the entity
  \<open>with\<close>, a member of the list of common words of the query-time entity search, which
  the extractor of the upload tool drops from the same text.
\<close>

theorem query_entity_in_stop_list:
  "''with'' \<in> set (extractEntities ''with'' []) \<and> ''with'' \<in> set commonWords
   \<and> extractSimpleEntities ''with'' = []"
  by (simp add: extractEntities_with extractSimpleEntities_with commonWords_def)

section \<open>Properties of context assembly\<close>

lemma toLowerCase_unit_a: "toLowerCase_unit (CHR ''a'') = CHR ''a''"
  by code_simp

lemma includes_str_prefix: "prefix s t \<Longrightarrow> includes_str t s"
  by (cases t) auto

lemma hasRelevantContent_a:
  assumes "4 \<le> n"
  shows "hasRelevantContent [''aaaa''] (replicate n (CHR ''a''))"
proof -
  from assms have "n = 4 + (n - 4)" by simp
  then have "replicate n (CHR ''a'') = replicate 4 (CHR ''a'') @ replicate (n - 4) (CHR ''a'')"
    by (metis replicate_add)
  moreover have "replicate 4 (CHR ''a'') = ''aaaa''"
    by (simp add: numeral_eq_Suc)
  ultimately have "prefix ''aaaa'' (replicate n (CHR ''a''))"
    by (metis prefixI)
  then show ?thesis
    by (simp add: hasRelevantContent_def toLowerCase_def toLowerCase_unit_a includes_str_prefix)
qed

text \<open>
  What holds on every input: the context is the concatenation of at most \<open>maxResults\<close>
  pieces, and it is at most \<open>maxContextLength + 2 * (maxResults - 1)\<close> characters long,
  the separators being the excess.
\<close>

lemma relevantTexts_loop_pieces:
  "relevantTexts_loop es acc cur cnt rs = acc @ concat (relevantPieces es (acc \<noteq> []) cur cnt rs)"
proof (induction rs arbitrary: acc cur cnt)
  case Nil
  show ?case by simp
next
  case (Cons r rs)
  show ?case
  proof (cases "textOf r")
    case None
    then show ?thesis using Cons.IH by (simp add: textOf_def)
  next
    case (Some body)
    then show ?thesis
      using Cons.IH [of acc cur cnt]
        Cons.IH [of "acc @ (if acc \<noteq> [] then [CHR 0x0A, CHR 0x0A] else []) @ body"
          "cur + length body" "cnt + 1"]
      by (simp add: textOf_def Let_def)
  qed
qed

lemma relevantPieces_count:
  "length (relevantPieces es started cur cnt rs) \<le> maxResults - cnt"
proof (induction rs arbitrary: started cur cnt)
  case Nil
  show ?case by simp
next
  case (Cons r rs)
  show ?case
  proof (cases "textOf r")
    case None
    then show ?thesis using Cons.IH by simp
  next
    case (Some body)
    then show ?thesis
      using Cons.IH [of started cur cnt] Cons.IH [of True "cur + length body" "cnt + 1"]
      by auto
  qed
qed

lemma relevantTexts_loop_length:
  "cur \<le> maxContextLength \<Longrightarrow> cnt \<le> maxResults \<Longrightarrow> (cnt = 0 \<longrightarrow> acc = []) \<Longrightarrow>
   length acc \<le> cur + 2 * (cnt - 1) \<Longrightarrow>
   length (relevantTexts_loop es acc cur cnt rs) \<le> maxContextLength + 2 * (maxResults - 1)"
proof (induction rs arbitrary: acc cur cnt)
  case Nil
  then show ?case by (simp add: maxResults_def)
next
  case (Cons r rs)
  show ?case
  proof (cases "cnt \<ge> maxResults")
    case True
    with Cons.prems show ?thesis by (simp add: maxResults_def)
  next
    case False
    show ?thesis
    proof (cases "textOf r")
      case None
      with False Cons show ?thesis by (simp add: textOf_def)
    next
      case (Some body)
      show ?thesis
      proof (cases "body = [] \<or> length body < 50 \<or> \<not> hasRelevantContent es body")
        case True
        with False Some Cons show ?thesis by (auto simp: textOf_def)
      next
        case ok: False
        show ?thesis
        proof (cases "cur + length body > maxContextLength")
          case True
          with False Some ok Cons.prems show ?thesis
            by (auto simp: textOf_def Let_def maxResults_def maxContextLength_def)
        next
          case fits: False
          have "length (relevantTexts_loop es
                 (acc @ (if acc \<noteq> [] then [CHR 0x0A, CHR 0x0A] else []) @ body)
                 (cur + length body) (cnt + 1) rs)
                \<le> maxContextLength + 2 * (maxResults - 1)"
          proof (rule Cons.IH)
            show "cur + length body \<le> maxContextLength" using fits by simp
            show "cnt + 1 \<le> maxResults" using False by simp
            show "cnt + 1 = 0 \<longrightarrow>
              acc @ (if acc \<noteq> [] then [CHR 0x0A, CHR 0x0A] else []) @ body = []"
              by simp
            show "length (acc @ (if acc \<noteq> [] then [CHR 0x0A, CHR 0x0A] else []) @ body)
                \<le> cur + length body + 2 * (cnt + 1 - 1)"
              using Cons.prems by (cases "cnt = 0") auto
          qed
          with False Some ok fits show ?thesis by (simp add: textOf_def)
        qed
      qed
    qed
  qed
qed

lemma assembleContext_bounds:
  "length (assembleContext rs es) \<le> maxContextLength + 2 * (maxResults - 1)
   \<and> assembleContext rs es = concat (relevantPieces es False 0 0 rs)
   \<and> length (relevantPieces es False 0 0 rs) \<le> maxResults"
  using relevantTexts_loop_length [of 0 0 "[]" es rs] relevantTexts_loop_pieces [of es "[]" 0 0 rs]
    relevantPieces_count [of es False 0 0 rs]
  by (simp add: assembleContext_def)

text \<open>
  Claim C1, at two candidates of 3000 characters each, both naming the entity: the two
  texts fit the budget of 6000 that \<open>currentLength\<close> counts, the separator between them is
  not counted, and the context is 6002 characters long.
\<close>

theorem assembleContext_exceeds_maxContextLength:
  "length (assembleContext [chunk_of_a ''c1'' 3000, chunk_of_a ''c2'' 3000] [''aaaa'']) = 6002
   \<and> maxContextLength = 6000"
  by (simp add: assembleContext_def chunk_of_a_def hasRelevantContent_a
      maxContextLength_def maxResults_def)

section \<open>Properties of the entity expansion search\<close>

lemma keepEntityResult_fresh:
  "keepEntityResult initial raw \<Longrightarrow> cand_id raw \<notin> cand_id ` set initial"
  by (auto simp: keepEntityResult_def find_None_iff)

lemma keepEntityResult_score:
  "keepEntityResult initial raw \<Longrightarrow> \<exists>s. score raw = Some s \<and> s > 7 / 10"
  by (auto simp: keepEntityResult_def split: option.splits)

lemma performEntitySearch_loop_results:
  "r \<in> set (fst (performEntitySearch_loop env initial depth h acc es)) \<Longrightarrow>
     r \<in> set acc \<or> (\<exists>e \<in> set es. \<exists>raw. entityHit env initial depth e raw r)"
proof (induction es arbitrary: h acc)
  case Nil
  then show ?case by simp
next
  case (Cons e es)
  show ?case
  proof (cases "toLowerCase e \<in> set commonWords")
    case True
    with Cons.prems have "r \<in> set (fst (performEntitySearch_loop env initial depth h acc es))"
      by simp
    from Cons.IH [OF this] show ?thesis by auto
  next
    case False
    show ?thesis
    proof (cases "embedMany env [e]")
      case (Inl err)
      with False Cons.prems show ?thesis by simp
    next
      case (Inr embs)
      show ?thesis
      proof (cases "vs_query env h (nth_opt embs 0) (min 5 (depth * 2))")
        case (Inl err)
        with False Inr Cons.prems show ?thesis by simp
      next
        case answer: (Inr a)
        show ?thesis
        proof (cases a)
          case None
          with False Inr answer Cons.prems show ?thesis by simp
        next
          case (Some rs)
          with False Inr answer Cons.prems
          have "r \<in> set (fst (performEntitySearch_loop env initial depth
                   (h @ [QueryCall (nth_opt embs 0) (min 5 (depth * 2))])
                   (acc @ map (tagEntityResult e) (filter (keepEntityResult initial) rs)) es))"
            by (simp add: Let_def)
          from Cons.IH [OF this]
          consider "r \<in> set acc"
            | "r \<in> set (map (tagEntityResult e) (filter (keepEntityResult initial) rs))"
            | "\<exists>e \<in> set es. \<exists>raw. entityHit env initial depth e raw r"
            by auto
          then show ?thesis
          proof cases
            case 1
            then show ?thesis by simp
          next
            case 2
            then obtain raw where "raw \<in> set rs" "keepEntityResult initial raw"
              "r = tagEntityResult e raw" by auto
            with Inr answer Some have "entityHit env initial depth e raw r"
              unfolding entityHit_def by blast
            then show ?thesis by auto
          next
            case 3
            then show ?thesis by auto
          qed
        qed
      qed
    qed
  qed
qed

lemma performEntitySearch_loop_calls:
  "\<exists>calls. snd (performEntitySearch_loop env initial depth h acc es) = h @ calls
     \<and> length calls \<le> length es
     \<and> (\<forall>c \<in> set calls. \<exists>e \<in> set es. \<exists>embs.
           embedMany env [e] = Inr embs \<and> c = QueryCall (nth_opt embs 0) (min 5 (depth * 2)))"
proof (induction es arbitrary: h acc)
  case Nil
  show ?case by simp
next
  case (Cons e es)
  show ?case
  proof (cases "toLowerCase e \<in> set commonWords")
    case True
    from Cons.IH [of h acc] obtain calls where
      "snd (performEntitySearch_loop env initial depth h acc es) = h @ calls"
      "length calls \<le> length es"
      "\<forall>c \<in> set calls. \<exists>e \<in> set es. \<exists>embs.
           embedMany env [e] = Inr embs \<and> c = QueryCall (nth_opt embs 0) (min 5 (depth * 2))"
      by blast
    with True show ?thesis by auto
  next
    case False
    show ?thesis
    proof (cases "embedMany env [e]")
      case (Inl err)
      with False show ?thesis by simp
    next
      case (Inr embs)
      let ?c = "QueryCall (nth_opt embs 0) (min 5 (depth * 2))"
      have one: "\<exists>calls. h @ [?c] = h @ calls \<and> length calls \<le> length (e # es)
         \<and> (\<forall>c \<in> set calls. \<exists>e' \<in> set (e # es). \<exists>embs.
           embedMany env [e'] = Inr embs \<and> c = QueryCall (nth_opt embs 0) (min 5 (depth * 2)))"
        using Inr by (intro exI [of _ "[?c]"]) simp
      show ?thesis
      proof (cases "vs_query env h (nth_opt embs 0) (min 5 (depth * 2))")
        case (Inl err)
        with False Inr one show ?thesis by (simp add: Let_def)
      next
        case answer: (Inr a)
        show ?thesis
        proof (cases a)
          case None
          with False Inr answer one show ?thesis by (simp add: Let_def)
        next
          case (Some rs)
          from Cons.IH [of "h @ [?c]"
              "acc @ map (tagEntityResult e) (filter (keepEntityResult initial) rs)"]
          obtain calls where c:
            "snd (performEntitySearch_loop env initial depth (h @ [?c])
               (acc @ map (tagEntityResult e) (filter (keepEntityResult initial) rs)) es)
              = (h @ [?c]) @ calls"
            "length calls \<le> length es"
            "\<forall>c \<in> set calls. \<exists>e \<in> set es. \<exists>embs.
               embedMany env [e] = Inr embs \<and> c = QueryCall (nth_opt embs 0) (min 5 (depth * 2))"
            by blast
          have "snd (performEntitySearch_loop env initial depth h acc (e # es)) = h @ (?c # calls)"
            using False Inr answer Some c(1) by (simp add: Let_def)
          moreover have "length (?c # calls) \<le> length (e # es)"
            using c(2) by simp
          moreover have "\<forall>c \<in> set (?c # calls). \<exists>e' \<in> set (e # es). \<exists>embs.
               embedMany env [e'] = Inr embs \<and> c = QueryCall (nth_opt embs 0) (min 5 (depth * 2))"
            using c(3) Inr by auto
          ultimately show ?thesis by blast
        qed
      qed
    qed
  qed
qed

text \<open>
  Claim C3. The search appends at most 3 queries to the history of the store, each made
  for one of the first 3 entities with \<open>topK = min 5 (depth * 2)\<close>. Every candidate it
  returns has an id that no initial candidate has, and is the tagged copy of a hit
  returned for one of the first 3 entities: the raw score is above 0.7, the final score
  is the raw score times 0.7, and the metadata carries \<open>entitySearch = true\<close> and that
  entity.
\<close>

theorem performEntitySearch_contract:
  "(\<exists>calls. snd (performEntitySearch env entities initial depth h) = h @ calls
        \<and> length calls \<le> 3
        \<and> (\<forall>c \<in> set calls. \<exists>e \<in> set (take 3 entities). \<exists>embs.
              embedMany env [e] = Inr embs
              \<and> c = QueryCall (nth_opt embs 0) (min 5 (depth * 2))))
   \<and> (\<forall>r \<in> set (fst (performEntitySearch env entities initial depth h)).
         cand_id r \<notin> cand_id ` set initial
         \<and> (\<exists>e \<in> set (take 3 entities). \<exists>raw s.
               entityHit env initial depth e raw r
               \<and> cand_id r = cand_id raw
               \<and> score raw = Some s \<and> 7 / 10 < s \<and> score r = Some (s * (7 / 10))
               \<and> (\<exists>md. metadata r = Some md \<and> md_entitySearch md = Some True
                      \<and> md_entity md = Some e)))"
proof -
  from performEntitySearch_loop_calls [of env initial depth h "[]" "take 3 entities"]
  obtain calls where c:
    "snd (performEntitySearch env entities initial depth h) = h @ calls"
    "length calls \<le> length (take 3 entities)"
    "\<forall>c \<in> set calls. \<exists>e \<in> set (take 3 entities). \<exists>embs.
        embedMany env [e] = Inr embs \<and> c = QueryCall (nth_opt embs 0) (min 5 (depth * 2))"
    unfolding performEntitySearch_def by blast
  from c(2) have "length calls \<le> 3" by simp
  with c(1,3) have calls: "\<exists>calls. snd (performEntitySearch env entities initial depth h) = h @ calls
        \<and> length calls \<le> 3
        \<and> (\<forall>c \<in> set calls. \<exists>e \<in> set (take 3 entities). \<exists>embs.
              embedMany env [e] = Inr embs
              \<and> c = QueryCall (nth_opt embs 0) (min 5 (depth * 2)))"
    by blast
  have results: "cand_id r \<notin> cand_id ` set initial
         \<and> (\<exists>e \<in> set (take 3 entities). \<exists>raw s.
               entityHit env initial depth e raw r
               \<and> cand_id r = cand_id raw
               \<and> score raw = Some s \<and> 7 / 10 < s \<and> score r = Some (s * (7 / 10))
               \<and> (\<exists>md. metadata r = Some md \<and> md_entitySearch md = Some True
                      \<and> md_entity md = Some e))"
    if "r \<in> set (fst (performEntitySearch env entities initial depth h))" for r
  proof -
    from that performEntitySearch_loop_results [of r env initial depth h "[]" "take 3 entities"]
    obtain e raw where e: "e \<in> set (take 3 entities)" and hit: "entityHit env initial depth e raw r"
      unfolding performEntitySearch_def by auto
    from hit have keep: "keepEntityResult initial raw" and r: "r = tagEntityResult e raw"
      unfolding entityHit_def by auto
    from keepEntityResult_score [OF keep] obtain s where s: "score raw = Some s" "7 / 10 < s"
      by blast
    have "cand_id r = cand_id raw" using r by (simp add: tagEntityResult_def)
    moreover have "score r = Some (s * (7 / 10))" using r s by (simp add: tagEntityResult_def)
    moreover have "\<exists>md. metadata r = Some md \<and> md_entitySearch md = Some True
                      \<and> md_entity md = Some e"
      using r by (simp add: tagEntityResult_def)
    moreover have "cand_id r \<notin> cand_id ` set initial"
      using keepEntityResult_fresh [OF keep] r by (simp add: tagEntityResult_def)
    ultimately show ?thesis using e hit s by blast
  qed
  from calls results show ?thesis by blast
qed

lemma sample_entity_search:
  "performEntitySearch sample_env [''alpha'', ''beta''] [sample_initial] 2 [QueryCall (Some [10]) 10]
     = ([tagEntityResult ''alpha'' sample_hit, tagEntityResult ''beta'' sample_hit],
        [QueryCall (Some [10]) 10, QueryCall (Some [5]) 4, QueryCall (Some [4]) 4])"
  by code_simp

theorem performEntitySearch_contract_witness:
  "fst (performEntitySearch sample_env [''alpha'', ''beta''] [sample_initial] 2
          [QueryCall (Some [10]) 10])
     = [tagEntityResult ''alpha'' sample_hit, tagEntityResult ''beta'' sample_hit]
   \<and> snd (performEntitySearch sample_env [''alpha'', ''beta''] [sample_initial] 2
          [QueryCall (Some [10]) 10])
     = [QueryCall (Some [10]) 10] @ [QueryCall (Some [5]) 4, QueryCall (Some [4]) 4]
   \<and> cand_id (tagEntityResult ''beta'' sample_hit) \<notin> cand_id ` set [sample_initial]
   \<and> score (tagEntityResult ''beta'' sample_hit) = Some (8 / 10 * (7 / 10))
   \<and> metadata (tagEntityResult ''beta'' sample_hit)
       = Some (empty_metadata\<lparr>md_text := Some ''beta follows alpha'',
                 md_entitySearch := Some True, md_entity := Some ''beta''\<rparr>)"
  using performEntitySearch_contract
    [of sample_env "[''alpha'', ''beta'']" "[sample_initial]" 2 "[QueryCall (Some [10]) 10]"]
  by (simp add: sample_entity_search)
    (simp add: tagEntityResult_def sample_hit_def sample_initial_def spread_metadata_def
       empty_metadata_def)

section \<open>Properties of the retrieval tool\<close>

lemma retrieveFrom_web_fields:
  "retrieveFrom env ctx initialResults used web h = (Inr r, h') \<Longrightarrow>
     rr_webSearchUsed r = used \<and> rr_webSearchResults r = webSearchResults_field used web"
  by (auto simp: retrieveFrom_def emptyResult_def Let_def
      split: option.splits if_splits prod.splits sum.splits)

lemma webSearchStage_fields:
  "webSearchStage env ctx v initialResults h = ((initialResults', used, web), h') \<Longrightarrow>
     (used \<longrightarrow> web \<noteq> []) \<and> (\<not> used \<longrightarrow> web = [])"
  by (auto simp: webSearchStage_def Let_def
      split: option.splits if_splits prod.splits sum.splits)

text \<open>
  Claim C10. In the result of \<open>execute\<close>, on the normal return, on the response for empty
  results and on the error response alike, \<open>webSearchResults\<close> is defined exactly when
  \<open>webSearchUsed\<close> is true.
\<close>

theorem webSearchResults_present_iff_used:
  "(rr_webSearchResults (fst (execute env ctx h)) \<noteq> None)
     = rr_webSearchUsed (fst (execute env ctx h))"
proof (cases "execute_try env ctx h")
  case (Pair res h')
  show ?thesis
  proof (cases res)
    case (Inl err)
    with Pair show ?thesis by (simp add: execute_def errorResult_def)
  next
    case (Inr r)
    with Pair have ex: "fst (execute env ctx h) = r" by (simp add: execute_def)
    from Pair Inr obtain initialResults used web h2 where
      "retrieveFrom env ctx initialResults used web h2 = (Inr r, h')"
      by (auto simp: execute_try_def Let_def split: if_splits sum.splits prod.splits)
    from retrieveFrom_web_fields [OF this] ex show ?thesis
      by (simp add: webSearchResults_field_def)
  qed
qed

lemma sample_web_execute:
  "rr_webSearchUsed (fst (execute sample_web_env sample_context []))
   \<and> rr_webSearchResults (fst (execute sample_web_env sample_context [])) = Some [sample_web_result]
   \<and> filter is_upsert (snd (execute sample_web_env sample_context [])) \<noteq> []"
  by code_simp

theorem webSearchResults_present_iff_used_witness:
  "rr_webSearchUsed (fst (execute sample_web_env sample_context []))
   \<and> rr_webSearchResults (fst (execute sample_web_env sample_context [])) \<noteq> None"
  using webSearchResults_present_iff_used [of sample_web_env sample_context "[]"]
    sample_web_execute
  by simp

text \<open>
  Claim C5. An exception that reaches the outer \<^verbatim>\<open>catch\<close>, the missing vector store among
  them, becomes the error response: one source, with id \<open>error\<close>, no entity path, no
  entities and \<open>webSearchUsed\<close> false. Otherwise the result of the body is returned. No other
  outcome exists: \<open>execute\<close> always returns a result.
\<close>

theorem execute_never_raises:
  "(fst (execute_try env ctx h) = Inl err \<longrightarrow> fst (execute env ctx h) = errorResult ctx err)
   \<and> (fst (execute_try env ctx h) = Inr r \<longrightarrow> fst (execute env ctx h) = r)
   \<and> (\<not> getVector env \<longrightarrow>
        fst (execute env ctx h) = errorResult ctx (Error ''Vector store not found. Please ensure pgVector is configured.''))
   \<and> map src_id (rr_sources (errorResult ctx err)) = [''error'']
   \<and> rr_entityPath (errorResult ctx err) = []
   \<and> rr_entities (errorResult ctx err) = []
   \<and> \<not> rr_webSearchUsed (errorResult ctx err)"
  by (cases "execute_try env ctx h")
    (auto simp: execute_def errorResult_def execute_try_def split: sum.splits)

lemma sample_regExp_failure:
  "fst (execute_try (sample_env\<lparr>regExp_count := (\<lambda>source txt. Inl (Error ''Invalid regular expression''))\<rparr>)
          sample_context [])
     = Inl (Error ''Invalid regular expression'')"
  by code_simp

theorem execute_never_raises_witness:
  "map src_id (rr_sources (fst (execute (sample_env\<lparr>getVector := False\<rparr>) sample_context [])))
     = [''error'']
   \<and> fst (execute (sample_env\<lparr>regExp_count := (\<lambda>source txt. Inl (Error ''Invalid regular expression''))\<rparr>)
            sample_context [])
     = errorResult sample_context (Error ''Invalid regular expression'')"
  using execute_never_raises
      [of "sample_env\<lparr>getVector := False\<rparr>" sample_context "[]" "Error ''Vector store not found. Please ensure pgVector is configured.''"]
    execute_never_raises
      [of "sample_env\<lparr>regExp_count := (\<lambda>source txt. Inl (Error ''Invalid regular expression''))\<rparr>"
          sample_context "[]" "Error ''Invalid regular expression''"]
    sample_regExp_failure
  by (simp add: sample_env_def)

lemma performEntitySearch_upserts:
  "filter is_upsert (snd (performEntitySearch env entities initial depth h)) = filter is_upsert h"
proof -
  from performEntitySearch_loop_calls [of env initial depth h "[]" "take 3 entities"]
  obtain calls where c:
    "snd (performEntitySearch env entities initial depth h) = h @ calls"
    "\<forall>c \<in> set calls. \<exists>e \<in> set (take 3 entities). \<exists>embs.
        embedMany env [e] = Inr embs \<and> c = QueryCall (nth_opt embs 0) (min 5 (depth * 2))"
    unfolding performEntitySearch_def by blast
  from c(2) have "\<forall>c \<in> set calls. \<not> is_upsert c" by auto
  then have "filter is_upsert calls = []" by (simp add: filter_empty_conv)
  with c(1) show ?thesis by simp
qed

lemma retrieveFrom_upserts:
  "filter is_upsert (snd (retrieveFrom env ctx initialResults used web h)) = filter is_upsert h"
  using performEntitySearch_upserts
  by (auto simp: retrieveFrom_def Let_def split: option.splits sum.splits prod.splits)
    (metis snd_conv)+


lemma execute_upserts:
  assumes "filter is_upsert (snd (execute env ctx h)) \<noteq> filter is_upsert h"
  shows "\<exists>embs rs. embedMany env [ctx_query ctx] = Inr embs
           \<and> vs_query env h (nth_opt embs 0) (ctx_topK ctx) = Inr rs
           \<and> \<not> hasSufficientLocalResults rs"
proof -
  have snd_eq: "snd (execute env ctx h) = snd (execute_try env ctx h)"
    by (cases "execute_try env ctx h") (auto simp: execute_def split: sum.splits)
  show ?thesis
  proof (rule ccontr)
    assume no: "\<not> ?thesis"
    have "filter is_upsert (snd (execute_try env ctx h)) = filter is_upsert h"
    proof (cases "getVector env")
      case False
      then show ?thesis by (simp add: execute_try_def)
    next
      case True
      show ?thesis
      proof (cases "embedMany env [ctx_query ctx]")
        case (Inl e)
        with True show ?thesis by (simp add: execute_try_def)
      next
        case (Inr embs)
        show ?thesis
        proof (cases "vs_query env h (nth_opt embs 0) (ctx_topK ctx)")
          case (Inl e)
          with True Inr show ?thesis by (simp add: execute_try_def)
        next
          case answer: (Inr rs)
          with no Inr have "hasSufficientLocalResults rs" by blast
          with True Inr answer show ?thesis
            by (simp add: execute_try_def retrieveFrom_upserts)
        qed
      qed
    qed
    with assms snd_eq show False by simp
  qed
qed

text \<open>
  Claim C7. With \<open>userRequested\<close> false the storing tool issues no call to the store (the
  history is unchanged) and returns \<open>storedCount\<close> 0 and no document id; so it upserts only
  on request. The retrieval tool upserts only when the answer to its initial query is
  insufficient.
\<close>

theorem web_results_stored_only_on_request_or_insufficient_recall:
  "(\<not> sc_userRequested sctx \<longrightarrow>
      storeWebResults env sctx h
        = (\<lparr>so_message = ''Web search results not stored - user did not request storage'',
            so_storedCount = 0, so_documentIds = []\<rparr>, h))
   \<and> (filter is_upsert (snd (storeWebResults env sctx h)) \<noteq> filter is_upsert h
        \<longrightarrow> sc_userRequested sctx)
   \<and> (filter is_upsert (snd (execute env ctx h)) \<noteq> filter is_upsert h
        \<longrightarrow> (\<exists>embs rs. embedMany env [ctx_query ctx] = Inr embs
                \<and> vs_query env h (nth_opt embs 0) (ctx_topK ctx) = Inr rs
                \<and> \<not> hasSufficientLocalResults rs))"
proof -
  have a: "storeWebResults env sctx h
        = (\<lparr>so_message = ''Web search results not stored - user did not request storage'',
            so_storedCount = 0, so_documentIds = []\<rparr>, h)" if "\<not> sc_userRequested sctx"
    using that by (simp add: storeWebResults_def storeWebResults_try_def)
  then have b: "sc_userRequested sctx"
    if "filter is_upsert (snd (storeWebResults env sctx h)) \<noteq> filter is_upsert h"
    using that by fastforce
  from a b execute_upserts show ?thesis by blast
qed

lemma sample_store_requested:
  "filter is_upsert (snd (storeWebResults sample_env (sample_store_context True) [])) \<noteq> []"
  by code_simp

theorem web_results_stored_only_on_request_or_insufficient_recall_witness:
  "storeWebResults sample_env (sample_store_context False) []
     = (\<lparr>so_message = ''Web search results not stored - user did not request storage'',
         so_storedCount = 0, so_documentIds = []\<rparr>, [])
   \<and> sc_userRequested (sample_store_context True)
   \<and> \<not> hasSufficientLocalResults (Some [])"
  using web_results_stored_only_on_request_or_insufficient_recall
      [where sctx = "sample_store_context False" and env = sample_env and h = "[]"
         and ctx = sample_context]
    web_results_stored_only_on_request_or_insufficient_recall
      [where sctx = "sample_store_context True" and env = sample_env and h = "[]"
         and ctx = sample_context]
    web_results_stored_only_on_request_or_insufficient_recall
      [where sctx = "sample_store_context True" and env = sample_web_env and h = "[]"
         and ctx = sample_context]
    sample_store_requested sample_web_execute
  by (simp add: sample_store_context_def hasSufficientLocalResults_def)

lemma formatSources_length: "length (formatSources n rs) = length rs"
  by (simp add: formatSources_def)

lemma formatSources_nth:
  "i < length rs \<Longrightarrow> formatSources n rs ! i = formatSource n i (rs ! i)"
  by (simp add: formatSources_def nth_enumerate_eq)

lemma retrieveFrom_sources:
  assumes "retrieveFrom env ctx initialResults used web h = (Inr r, h')"
  shows "(initialResults = None \<or> initialResults = Some [] \<longrightarrow> rr_sources r = [])
     \<and> (\<forall>initial. initialResults = Some initial \<and> initial \<noteq> [] \<longrightarrow>
           (\<exists>reranked.
              rerankByEntityOverlap (regExp_count env)
                (initial
                   @ fst (if ctx_useEntityEnhancement ctx
                             \<and> length (extractEntities (ctx_query ctx) initial) > 0
                          then performEntitySearch env (extractEntities (ctx_query ctx) initial)
                                 initial (ctx_entityDepth ctx) h
                          else ([], h)))
                (extractEntities (ctx_query ctx) initial) = Inr reranked
              \<and> rr_sources r = formatSources (length initial) reranked))"
proof (cases initialResults)
  case None
  with assms show ?thesis by (auto simp: retrieveFrom_def emptyResult_def)
next
  case (Some initial)
  show ?thesis
  proof (cases "initial = []")
    case True
    with Some assms show ?thesis by (auto simp: retrieveFrom_def emptyResult_def)
  next
    case False
    obtain er hh where er:
      "(if ctx_useEntityEnhancement ctx \<and> length (extractEntities (ctx_query ctx) initial) > 0
        then performEntitySearch env (extractEntities (ctx_query ctx) initial) initial
               (ctx_entityDepth ctx) h
        else ([], h)) = (er, hh)"
      by (metis surj_pair)
    have enh: "(if length er > 0 then initial @ er else initial) = initial @ er"
      by simp
    from assms Some False er obtain reranked where
      "rerankByEntityOverlap (regExp_count env) (initial @ er)
         (extractEntities (ctx_query ctx) initial) = Inr reranked"
      "rr_sources r = formatSources (length initial) reranked"
      unfolding retrieveFrom_def Let_def
      by (auto simp: enh simp del: length_greater_0_conv split: sum.splits)
    with Some False er show ?thesis by auto
  qed
qed

lemma webSearchStage_initial:
  "webSearchStage env ctx v ir h = ((ir', used, web), h') \<Longrightarrow>
     ir' = ir \<or> (\<exists>hq k. vs_query env hq v k = Inr ir')"
  by (auto simp: webSearchStage_def Let_def
      split: option.splits if_splits prod.splits sum.splits)

lemma execute_try_retrieveFrom:
  assumes "execute_try env ctx h = (Inr r, h')"
  shows "\<exists>initialResults used web h2.
           retrieveFrom env ctx initialResults used web h2 = (Inr r, h')
           \<and> (\<exists>hq v k. vs_query env hq v k = Inr initialResults)"
proof -
  from assms obtain embs firstResults where
    emb: "embedMany env [ctx_query ctx] = Inr embs"
    and first: "vs_query env h (nth_opt embs 0) (ctx_topK ctx) = Inr firstResults"
    by (auto simp: execute_try_def Let_def split: if_splits sum.splits)
  let ?h1 = "h @ [QueryCall (nth_opt embs 0) (ctx_topK ctx)]"
  show ?thesis
  proof (cases "hasSufficientLocalResults firstResults")
    case True
    with assms emb first
    have "retrieveFrom env ctx firstResults False [] ?h1 = (Inr r, h')"
      by (auto simp: execute_try_def Let_def split: if_splits)
    with first show ?thesis by blast
  next
    case False
    obtain ir' used web h2 where
      w: "webSearchStage env ctx (nth_opt embs 0) firstResults ?h1 = ((ir', used, web), h2)"
      by (metis surj_pair)
    with assms emb first False
    have rf: "retrieveFrom env ctx ir' used web h2 = (Inr r, h')"
      by (auto simp: execute_try_def Let_def split: if_splits)
    from webSearchStage_initial [OF w] first
    have "\<exists>hq v k. vs_query env hq v k = Inr ir'" by blast
    with rf show ?thesis by blast
  qed
qed

text \<open>
  What the tool returns as sources. When the initial result list (the answer of the store
  to the initial query or, after a web search, to the repeated query) is missing or empty,
  there is no source. Otherwise the sources are the formatted elements of the reranked
  list, which is the reranking of the initial results followed by the results of the
  entity search that ran, \<^emph>\<open>before\<close> deduplication: one source per element, in that
  order, with the id of the element and \<open>retrievalMethod\<close> set by the position.
\<close>

lemma sources_on_return:
  assumes "fst (execute_try env ctx h) = Inr r"
  shows "\<exists>initialResults h2.
           (\<exists>hq v k. vs_query env hq v k = Inr initialResults)
           \<and> (initialResults = None \<or> initialResults = Some [] \<longrightarrow> rr_sources r = [])
           \<and> (\<forall>initial. initialResults = Some initial \<and> initial \<noteq> [] \<longrightarrow>
                 (\<exists>reranked.
                    rerankByEntityOverlap (regExp_count env)
                      (initial
                         @ fst (if ctx_useEntityEnhancement ctx
                                   \<and> length (extractEntities (ctx_query ctx) initial) > 0
                                then performEntitySearch env
                                       (extractEntities (ctx_query ctx) initial)
                                       initial (ctx_entityDepth ctx) h2
                                else ([], h2)))
                      (extractEntities (ctx_query ctx) initial) = Inr reranked
                    \<and> length (rr_sources r) = length reranked
                    \<and> (\<forall>i < length reranked.
                          rr_sources r ! i = formatSource (length initial) i (reranked ! i)
                          \<and> sm_id (src_metadata (rr_sources r ! i))
                              = Some (cand_id (reranked ! i))
                          \<and> sm_retrievalMethod (src_metadata (rr_sources r ! i))
                              = Some (if i < length initial then ''vector_similarity''
                                      else ''entity_search''))))"
proof -
  from assms obtain h' where "execute_try env ctx h = (Inr r, h')"
    by (cases "execute_try env ctx h") auto
  from execute_try_retrieveFrom [OF this] obtain initialResults used web h2 hq v k where
    rf: "retrieveFrom env ctx initialResults used web h2 = (Inr r, h')"
    and q: "vs_query env hq v k = Inr initialResults"
    by blast
  note src = retrieveFrom_sources [OF rf]
  have "\<exists>reranked.
          rerankByEntityOverlap (regExp_count env)
            (initial
               @ fst (if ctx_useEntityEnhancement ctx
                         \<and> length (extractEntities (ctx_query ctx) initial) > 0
                      then performEntitySearch env (extractEntities (ctx_query ctx) initial)
                             initial (ctx_entityDepth ctx) h2
                      else ([], h2)))
            (extractEntities (ctx_query ctx) initial) = Inr reranked
          \<and> length (rr_sources r) = length reranked
          \<and> (\<forall>i < length reranked.
                rr_sources r ! i = formatSource (length initial) i (reranked ! i)
                \<and> sm_id (src_metadata (rr_sources r ! i)) = Some (cand_id (reranked ! i))
                \<and> sm_retrievalMethod (src_metadata (rr_sources r ! i))
                    = Some (if i < length initial then ''vector_similarity''
                            else ''entity_search''))"
    if i: "initialResults = Some initial" "initial \<noteq> []" for initial
  proof -
    from src i obtain reranked where
      rr: "rerankByEntityOverlap (regExp_count env)
            (initial
               @ fst (if ctx_useEntityEnhancement ctx
                         \<and> length (extractEntities (ctx_query ctx) initial) > 0
                      then performEntitySearch env (extractEntities (ctx_query ctx) initial)
                             initial (ctx_entityDepth ctx) h2
                      else ([], h2)))
            (extractEntities (ctx_query ctx) initial) = Inr reranked"
      and fs: "rr_sources r = formatSources (length initial) reranked"
      by blast
    have "\<forall>i < length reranked.
                rr_sources r ! i = formatSource (length initial) i (reranked ! i)
                \<and> sm_id (src_metadata (rr_sources r ! i)) = Some (cand_id (reranked ! i))
                \<and> sm_retrievalMethod (src_metadata (rr_sources r ! i))
                    = Some (if i < length initial then ''vector_similarity''
                            else ''entity_search'')"
      unfolding fs by (simp add: formatSources_nth formatSource_def)
    moreover have "length (rr_sources r) = length reranked"
      unfolding fs by (rule formatSources_length)
    ultimately show ?thesis using rr by blast
  qed
  with src q show ?thesis by blast
qed

lemma sample_execute_try:
  "fst (execute_try sample_env sample_context []) = Inr (fst (execute sample_env sample_context []))"
  by code_simp

lemma sample_methods: "map sm_retrievalMethod (map src_metadata
        (rr_sources (fst (execute sample_env sample_context []))))
     = [Some ''vector_similarity'', Some ''entity_search'', Some ''entity_search'']"
  by code_simp

text \<open>
  Claim C9, at a store that answers the queries for the entities \<open>alpha\<close> and \<open>beta\<close> with
  the same hit \<open>x\<close>. The sources are to be built from the reranked and deduplicated list,
  one entry per candidate. The deduplicated list has the candidates \<open>c0\<close> and \<open>x\<close>; the
  tool maps the reranked list as it is before deduplication, and the sources are three,
  two of them for the candidate \<open>x\<close>.
\<close>

theorem sources_not_deduplicated:
  "map sm_id (map src_metadata (rr_sources (fst (execute sample_env sample_context []))))
     = [Some ''c0'', Some ''x'', Some ''x'']
   \<and> map_sum id (map cand_id \<circ> uniqueResults)
        (rerankByEntityOverlap regExp_gi_count
           ([sample_initial]
              @ fst (performEntitySearch sample_env [''alpha'', ''beta''] [sample_initial] 2
                       [QueryCall (Some [10]) 10]))
           [''alpha'', ''beta''])
       = Inr [''c0'', ''x'']"
  by code_simp

section \<open>Properties of the reranking\<close>

text \<open>
  For an entity that is a non-empty string of word characters the pattern is the entity
  itself between two word boundaries, two matches cannot overlap, and the number of
  matches is the number of whole-word occurrences. On such entities the reranking is the
  stable sort, by descending score, of the candidates with raised scores; without entities
  it returns its input.
\<close>

lemma isWordChar_not_syntax:
  "isWordChar c \<Longrightarrow> c \<noteq> CHR 0x5C \<and> c \<noteq> CHR ''.'' \<and> c \<notin> set syntaxCharacters"
  by (auto simp: isWordChar_def syntaxCharacters_def)

lemma of_char_char_of_nat: "n < 256 \<Longrightarrow> (of_char (char_of n) :: nat) = n"
  by (simp add: of_char_of)

lemma isWordChar_lower_eq:
  assumes "toLowerCase_unit x = toLowerCase_unit c" "isWordChar c"
  shows "isWordChar x"
proof -
  have lo: "(of_char (toLowerCase_unit y) :: nat) =
      (if (65 \<le> (of_char y :: nat) \<and> (of_char y :: nat) \<le> 90)
          \<or> (192 \<le> (of_char y :: nat) \<and> (of_char y :: nat) \<le> 222 \<and> (of_char y :: nat) \<noteq> 215)
       then of_char y + 32 else of_char y)" for y
    by (auto simp: toLowerCase_unit_def Let_def of_char_char_of_nat)
  from assms(1) have "(of_char (toLowerCase_unit x) :: nat) = of_char (toLowerCase_unit c)"
    by simp
  with assms(2) show ?thesis
    unfolding lo isWordChar_def Let_def by (auto split: if_splits)
qed


lemma parsePattern_Cons:
  "rest \<noteq> [] \<Longrightarrow> isWordChar c \<Longrightarrow>
     parsePattern (c # rest) = map_option ((#) (Lit c)) (parsePattern rest)"
  using isWordChar_not_syntax [of c] by (cases rest) auto

lemma parsePattern_entity:
  "list_all isWordChar e \<Longrightarrow>
     parsePattern (e @ [CHR 0x5C, CHR ''b'']) = Some (map Lit e @ [WordBoundary])"
  by (induction e) (simp_all add: parsePattern_Cons)

lemma parsePattern_wordPattern:
  "list_all isWordChar e \<Longrightarrow>
     parsePattern (wordPattern e) = Some (WordBoundary # map Lit e @ [WordBoundary])"
  by (simp add: wordPattern_def parsePattern_entity)

lemma matchItems_literals:
  "matchItems (map Lit e @ [WordBoundary]) prev rest =
     (if length e \<le> length rest
         \<and> toLowerCase (take (length e) rest) = toLowerCase e
         \<and> isWordChar_opt (if e = [] then prev else Some (rest ! (length e - 1)))
             \<noteq> isWordChar_opt (if length e < length rest then Some (rest ! length e) else None)
      then Some (length e) else None)"
proof (induction e arbitrary: prev rest)
  case Nil
  show ?case by (cases rest) (auto simp: toLowerCase_def)
next
  case (Cons c e)
  show ?case
  proof (cases rest)
    case Nil
    then show ?thesis by simp
  next
    case (Cons x xs)
    show ?thesis
    proof (cases "toLowerCase_unit c = toLowerCase_unit x")
      case False
      with Cons show ?thesis by (auto simp: toLowerCase_def)
    next
      case True
      show ?thesis
        unfolding Cons using True Cons.IH [of "Some x" xs]
        by (cases e) (auto simp: toLowerCase_def nth_Cons')
    qed
  qed
qed


lemma toLowerCase_eq_wordChars:
  "toLowerCase xs = toLowerCase ys \<Longrightarrow> list_all isWordChar ys \<Longrightarrow> list_all isWordChar xs"
proof (induction xs arbitrary: ys)
  case Nil
  show ?case by simp
next
  case (Cons x xs)
  then obtain y ys' where ys: "ys = y # ys'" by (cases ys) (auto simp: toLowerCase_def)
  with Cons.prems have "toLowerCase_unit x = toLowerCase_unit y" "toLowerCase xs = toLowerCase ys'"
    "isWordChar y" "list_all isWordChar ys'"
    by (auto simp: toLowerCase_def)
  with Cons.IH [of ys'] isWordChar_lower_eq [of x y] show ?case by simp
qed

lemma matchItems_word_None:
  assumes "isWordChar_opt prev" "rest \<noteq> []" "isWordChar (hd rest)"
  shows "matchItems (WordBoundary # items) prev rest = None"
  using assms by (cases rest) (auto simp: isWordChar_opt_def)

lemma matchItems_word:
  assumes e: "e \<noteq> []" "list_all isWordChar e" and i: "i \<le> length txt"
  shows "matchItems (WordBoundary # map Lit e @ [WordBoundary]) (prevAt txt i) (drop i txt)
           = (if occursAsWordAt e txt i then Some (length e) else None)"
proof (cases "i + length e \<le> length txt
               \<and> toLowerCase (take (length e) (drop i txt)) = toLowerCase e")
  case False
  then have "\<not> occursAsWordAt e txt i" by (auto simp: occursAsWordAt_def)
  moreover from False i have "matchItems (map Lit e @ [WordBoundary]) (prevAt txt i) (drop i txt) = None"
    unfolding matchItems_literals by auto
  ultimately show ?thesis by simp
next
  case True
  then have len: "i + length e \<le> length txt"
    and eq: "toLowerCase (take (length e) (drop i txt)) = toLowerCase e" by auto
  from e(1) have n: "0 < length e" by simp
  from toLowerCase_eq_wordChars [OF eq e(2)]
  have w: "list_all isWordChar (take (length e) (drop i txt))" .
  from w len have wk: "\<forall>k < length e. isWordChar (txt ! (i + k))"
    by (simp add: list_all_length)
  from wk n have first: "isWordChar (txt ! i)"
    by (metis add.right_neutral)
  from w n len have lastr: "isWordChar (drop i txt ! (length e - 1))"
    by (simp add: list_all_length)
  from n len have ilt: "i < length txt" by linarith
  then have hd: "(case drop i txt of [] \<Rightarrow> None | x # xs \<Rightarrow> Some x) = Some (txt ! i)"
    by (simp add: Cons_nth_drop_Suc [symmetric])
  have start: "matchItems (WordBoundary # map Lit e @ [WordBoundary]) (prevAt txt i) (drop i txt)
      = (if \<not> isWordChar_opt (prevAt txt i)
         then matchItems (map Lit e @ [WordBoundary]) (prevAt txt i) (drop i txt) else None)"
    using first by (simp add: hd isWordChar_opt_def)
  have lit: "matchItems (map Lit e @ [WordBoundary]) (prevAt txt i) (drop i txt)
      = (if i + length e = length txt \<or> \<not> isWordChar (txt ! (i + length e))
         then Some (length e) else None)"
  proof (cases "i + length e = length txt")
    case True
    then have "length (drop i txt) = length e" by simp
    with True eq e(1) lastr show ?thesis
      unfolding matchItems_literals by (simp add: isWordChar_opt_def)
  next
    case False
    with len have "length e < length (drop i txt)" by simp
    moreover from this have "drop i txt ! length e = txt ! (i + length e)" by simp
    ultimately show ?thesis
      using False eq e(1) lastr unfolding matchItems_literals
      by (simp add: isWordChar_opt_def)
  qed
  have "occursAsWordAt e txt i
      \<longleftrightarrow> \<not> isWordChar_opt (prevAt txt i)
          \<and> (i + length e = length txt \<or> \<not> isWordChar (txt ! (i + length e)))"
    using len eq by (auto simp: occursAsWordAt_def prevAt_def isWordChar_opt_def)
  with start lit show ?thesis by simp
qed


lemma prevAt_Suc: "prevAt txt (Suc i) = Some (txt ! i)"
  by (simp add: prevAt_def)

lemma countMatches_unfold:
  "rest = x # xs \<Longrightarrow>
     countMatches items k prev rest =
       (if k > 0 then countMatches items (k - 1) (Some x) xs
        else (case matchItems items prev rest of
                None \<Rightarrow> countMatches items 0 (Some x) xs
              | Some n \<Rightarrow> 1 + countMatches items (n - 1) (Some x) xs))"
  by simp

lemma countMatches_positions:
  assumes nonoverlap:
    "\<And>i n j. i \<le> length txt \<Longrightarrow> matchItems items (prevAt txt i) (drop i txt) = Some n
        \<Longrightarrow> i < j \<Longrightarrow> j < i + n \<Longrightarrow> matchItems items (prevAt txt j) (drop j txt) = None"
  shows "i \<le> length txt \<Longrightarrow>
     (\<And>j. i \<le> j \<Longrightarrow> j < i + k \<Longrightarrow> matchItems items (prevAt txt j) (drop j txt) = None) \<Longrightarrow>
     countMatches items k (prevAt txt i) (drop i txt)
       = length (filter (\<lambda>j. matchItems items (prevAt txt j) (drop j txt) \<noteq> None)
                  [i..<Suc (length txt)])"
proof (induction "length txt - i" arbitrary: i k)
  case 0
  then have i: "i = length txt" by simp
  have up: "[i..<Suc (length txt)] = [i]" unfolding i by simp
  show ?case
  proof (cases "k = 0")
    case True
    then show ?thesis unfolding up by (simp add: i)
  next
    case False
    then have "matchItems items (prevAt txt i) (drop i txt) = None"
      using "0.prems"(2) [of i] by simp
    then show ?thesis unfolding up using False by (simp add: i)
  qed
next
  case (Suc m)
  let ?P = "\<lambda>j. matchItems items (prevAt txt j) (drop j txt) \<noteq> None"
  define R where "R = length (filter ?P [Suc i..<Suc (length txt)])"
  define C where "C = (\<lambda>k'. countMatches items k' (prevAt txt (Suc i)) (drop (Suc i) txt))"
  define M where "M = matchItems items (prevAt txt i) (drop i txt)"
  from Suc.hyps(2) have lt: "i < length txt" by simp
  then have dr: "drop i txt = txt ! i # drop (Suc i) txt"
    by (simp add: Cons_nth_drop_Suc)
  from lt have up: "[i..<Suc (length txt)] = i # [Suc i..<Suc (length txt)]"
    using upt_conv_Cons [of i "Suc (length txt)"] by simp
  have rhs: "length (filter ?P [i..<Suc (length txt)]) = (if M \<noteq> None then 1 else 0) + R"
    unfolding up R_def M_def by simp
  have lhs: "countMatches items k (prevAt txt i) (drop i txt) =
       (if k > 0 then C (k - 1)
        else (case M of None \<Rightarrow> C 0 | Some n \<Rightarrow> 1 + C (n - 1)))"
    unfolding C_def M_def prevAt_Suc by (rule countMatches_unfold [OF dr])
  from Suc.hyps(2) lt have m: "m = length txt - Suc i" by simp
  from lt have le: "Suc i \<le> length txt" by simp
  have IH: "C k' = R"
    if "\<And>j. Suc i \<le> j \<Longrightarrow> j < Suc i + k' \<Longrightarrow> matchItems items (prevAt txt j) (drop j txt) = None"
    for k'
    unfolding C_def R_def using that by (rule Suc.hyps(1) [OF m le])
  show ?case
  proof (cases "k = 0")
    case False
    then have none: "M = None"
      unfolding M_def using Suc.prems(2) [of i] by simp
    have "C (k - 1) = R"
    proof (rule IH)
      fix j assume "Suc i \<le> j" "j < Suc i + (k - 1)"
      with False show "matchItems items (prevAt txt j) (drop j txt) = None"
        using Suc.prems(2) [of j] by simp
    qed
    with False none show ?thesis unfolding lhs rhs by simp
  next
    case True
    show ?thesis
    proof (cases M)
      case None
      have "C 0 = R" by (rule IH) simp
      with True None show ?thesis unfolding lhs rhs by simp
    next
      case (Some n)
      have "C (n - 1) = R"
      proof (rule IH)
        fix j assume "Suc i \<le> j" "j < Suc i + (n - 1)"
        then have "i < j" "j < i + n" by auto
        with nonoverlap [OF Suc.prems(1) Some [unfolded M_def]]
        show "matchItems items (prevAt txt j) (drop j txt) = None" by blast
      qed
      with True Some show ?thesis unfolding lhs rhs by simp
    qed
  qed
qed


lemma occursAsWordAt_wordChars:
  assumes "occursAsWordAt e txt i" "list_all isWordChar e" "k < length e"
  shows "isWordChar (txt ! (i + k))"
proof -
  from assms(1) have len: "i + length e \<le> length txt"
    and eq: "toLowerCase (take (length e) (drop i txt)) = toLowerCase e"
    by (auto simp: occursAsWordAt_def)
  from toLowerCase_eq_wordChars [OF eq assms(2)] len
  have "\<forall>k < length e. isWordChar (txt ! (i + k))"
    by (simp add: list_all_length)
  with assms(3) show ?thesis by blast
qed

lemma regExp_word_count:
  assumes e: "e \<noteq> []" "list_all isWordChar e"
  shows "regExp_gi_count (wordPattern e) txt = Inr (wholeWordOccurrences e txt)"
proof -
  let ?items = "WordBoundary # map Lit e @ [WordBoundary]"
  have nonoverlap: "matchItems ?items (prevAt txt j) (drop j txt) = None"
    if "i \<le> length txt" "matchItems ?items (prevAt txt i) (drop i txt) = Some n"
      "i < j" "j < i + n" for i n j
  proof -
    from that(2) have occ: "occursAsWordAt e txt i" and n: "n = length e"
      unfolding matchItems_word [OF e that(1)] by (auto split: if_splits)
    from occ have len: "i + length e \<le> length txt" by (simp add: occursAsWordAt_def)
    from that(3,4) n have "j - 1 - i < length e" "j - i < length e" by auto
    from occursAsWordAt_wordChars [OF occ e(2) this(1)]
      occursAsWordAt_wordChars [OF occ e(2) this(2)] that(3)
    have w: "isWordChar (txt ! (j - 1))" "isWordChar (txt ! j)" by auto
    from that(3,4) n len have jl: "j < length txt" by simp
    then have "drop j txt \<noteq> []" "hd (drop j txt) = txt ! j"
      by (simp_all add: hd_drop_conv_nth)
    moreover from that(3) w(1) have "isWordChar_opt (prevAt txt j)"
      by (simp add: prevAt_def isWordChar_opt_def)
    ultimately show ?thesis using w(2) by (intro matchItems_word_None) simp_all
  qed
  have "countMatches ?items 0 (prevAt txt 0) (drop 0 txt)
      = length (filter (\<lambda>j. matchItems ?items (prevAt txt j) (drop j txt) \<noteq> None)
                  [0..<Suc (length txt)])"
    by (rule countMatches_positions) (use nonoverlap in auto)
  also have "\<dots> = length (filter (occursAsWordAt e txt) [0..<Suc (length txt)])"
  proof -
    have "filter (\<lambda>j. matchItems ?items (prevAt txt j) (drop j txt) \<noteq> None)
            [0..<Suc (length txt)]
        = filter (occursAsWordAt e txt) [0..<Suc (length txt)]"
    proof (rule filter_cong [OF refl])
      fix j assume "j \<in> set [0..<Suc (length txt)]"
      then have "j \<le> length txt" by auto
      from matchItems_word [OF e this]
      show "(matchItems ?items (prevAt txt j) (drop j txt) \<noteq> None) = occursAsWordAt e txt j"
        by simp
    qed
    then show ?thesis by simp
  qed
  finally have "countMatches ?items 0 None txt = wholeWordOccurrences e txt"
    by (simp add: prevAt_def wholeWordOccurrences_def)
  with parsePattern_wordPattern [OF e(2)] show ?thesis
    by (simp add: regExp_gi_count_def)
qed

lemma countEntities_word:
  "\<forall>e \<in> set es. e \<noteq> [] \<and> list_all isWordChar e \<Longrightarrow>
     countEntities regExp_gi_count t acc es
       = Inr (acc + sum_list (map (\<lambda>e. wholeWordOccurrences e t) es))"
  by (induction es arbitrary: acc) (simp_all add: regExp_word_count)

lemma map_throwing_total: "(\<And>x. x \<in> set xs \<Longrightarrow> f x = Inr (g x)) \<Longrightarrow> map_throwing f xs = Inr (map g xs)"
  by (induction xs) simp_all

lemma rerank_word_entities:
  assumes "entities \<noteq> []" "\<forall>e \<in> set entities. e \<noteq> [] \<and> list_all isWordChar e"
  shows "rerankByEntityOverlap regExp_gi_count results entities
           = Inr (sort_key (\<lambda>c. - score_or_zero c) (map (boosted entities) results))"
    and "sorted (map (\<lambda>c. - score_or_zero c)
                  (sort_key (\<lambda>c. - score_or_zero c) (map (boosted entities) results)))"
    and "filter (\<lambda>c. - score_or_zero c = k)
              (sort_key (\<lambda>c. - score_or_zero c) (map (boosted entities) results))
           = filter (\<lambda>c. - score_or_zero c = k) (map (boosted entities) results)"
proof -
  have "rerankOne regExp_gi_count entities r = Inr (boosted entities r)" for r
    by (simp add: rerankOne_def countEntities_word [OF assms(2)] boosted_def
        entityOccurrences_def Let_def)
  then have "map_throwing (rerankOne regExp_gi_count entities) results
      = Inr (map (boosted entities) results)"
    by (intro map_throwing_total) simp
  with assms(1) show "rerankByEntityOverlap regExp_gi_count results entities
           = Inr (sort_key (\<lambda>c. - score_or_zero c) (map (boosted entities) results))"
    by (simp add: rerankByEntityOverlap_def)
  show "sorted (map (\<lambda>c. - score_or_zero c)
                  (sort_key (\<lambda>c. - score_or_zero c) (map (boosted entities) results)))"
    by (rule sorted_sort_key)
  show "filter (\<lambda>c. - score_or_zero c = k)
              (sort_key (\<lambda>c. - score_or_zero c) (map (boosted entities) results))
           = filter (\<lambda>c. - score_or_zero c = k) (map (boosted entities) results)"
    by (rule sort_key_stable)
qed

lemma rerank_no_entities: "rerankByEntityOverlap rx results [] = Inr results"
  by (simp add: rerankByEntityOverlap_def)

text \<open>
  Claim C4, at the entity \<open>a.c\<close> and a candidate of score 1 with the text \<open>abc\<close>. The
  entity does not occur in the text, so the claim gives the score 1. The entity is put
  into the pattern unescaped, its dot matches the letter \<open>b\<close>, and the tool counts one
  match: the score becomes 1.1 and \<open>entityScore\<close> 1.
\<close>

theorem rerank_unescaped_entity:
  "rerankByEntityOverlap regExp_gi_count [sample_abc] [''a.c'']
     = Inr [\<lparr>cand_id = ''c1'', score = Some (11 / 10),
             metadata = Some (empty_metadata\<lparr>md_text := Some ''abc'',
                          md_entityScore := Some 1, md_boostedScore := Some (11 / 10)\<rparr>)\<rparr>]
   \<and> wholeWordOccurrences ''a.c'' (lowerText sample_abc) = 0"
  by code_simp

end
